theory Spec2Isabelle
  imports Complex_Main "HOL-Library.Multiset"
begin

section \<open>Numbers, strings and errors\<close>

text \<open>
  JavaScript numbers are modelled as follows. In \<open>cosineSimilarity\<close> they are the values of
  the type \<open>number\<close> defined with it: \<open>NaN\<close>, the infinities and the finite values, with
  rounded arithmetic. In the aggregator, the scores and the components of the embeddings are
  finite and the arithmetic is exact (\<^typ>\<open>real\<close>). Lengths are \<^typ>\<open>nat\<close>, and the integer
  arguments and indices of the tokenizer are \<^typ>\<open>int\<close>, since a non-positive stride makes
  the loop index negative. Strings are character lists over ASCII.
\<close>

text \<open>The values thrown in the modelled code: the three \<open>Error\<close>s that the code itself
  constructs, an \<open>Error\<close> with a message raised by the embedding backend, and a thrown value
  that is not an \<open>Error\<close>.\<close>

datatype error =
    ModelNotInitialized
  | EmptyInput
  | DimensionMismatch
  | BackendError string
  | ThrownValue

text \<open>\<open>error instanceof Error ? error.message : 'Unknown error'\<close>\<close>

fun errorMessage :: "error \<Rightarrow> string" where
  "errorMessage ModelNotInitialized = ''Model not initialized. Call initialize() first.''"
| "errorMessage EmptyInput = ''Cannot compute embedding for empty text''"
| "errorMessage DimensionMismatch = ''Embeddings must have the same dimension''"
| "errorMessage (BackendError msg) = msg"
| "errorMessage ThrownValue = ''Unknown error''"

section \<open>Tokenizer (src/ml/tokenizer.ts)\<close>

definition isSpace :: "char \<Rightarrow> bool" where
  \<comment> \<open>the ASCII characters matched by the regular expression class \<open>\s\<close>\<close>
  "isSpace c = (c \<in> {CHR 0x09, CHR 0x0A, CHR 0x0B, CHR 0x0C, CHR 0x0D, CHR '' ''})"

definition toLowerChar :: "char \<Rightarrow> char" where
  "toLowerChar c =
     (let n = (of_char c :: nat) in if 65 \<le> n \<and> n \<le> 90 then char_of (n + 32) else c)"

definition toLowerCase :: "string \<Rightarrow> string" where
  "toLowerCase s = map toLowerChar s"

text \<open>\<open>s.split(/\s+/)\<close>: the pieces between maximal runs of whitespace, an empty piece
  before a leading run and after a trailing one.\<close>

function splitWs :: "string \<Rightarrow> string list" where
  "splitWs [] = [[]]"
| "splitWs (c # cs) =
     (if isSpace c then [] # splitWs (dropWhile isSpace cs)
      else (case splitWs cs of
              [] \<Rightarrow> [[c]]
            | p # ps \<Rightarrow> (c # p) # ps))"
  by pat_completeness auto
termination
  by (relation "measure length") (auto simp: length_dropWhile_le less_Suc_eq_le)

definition tokenize :: "string \<Rightarrow> string list" where
  "tokenize text = filter (\<lambda>token. length token > 0) (splitWs (toLowerCase text))"

text \<open>\<open>tokens.join(' ')\<close>\<close>

fun join :: "string list \<Rightarrow> string" where
  "join [] = []"
| "join [t] = t"
| "join (t # ts) = t @ '' '' @ join ts"

text \<open>\<open>Array.prototype.slice(start, end)\<close>, negative arguments counting from the end.\<close>

definition slice :: "'a list \<Rightarrow> int \<Rightarrow> int \<Rightarrow> 'a list" where
  "slice xs start end' =
     (let len = int (length xs);
          k = (if start < 0 then max (len + start) 0 else min start len);
          final = (if end' < 0 then max (len + end') 0 else min end' len)
      in take (nat (final - k)) (drop (nat k) xs))"

record SlidingWindow =
  wtext :: string  \<comment> \<open>the field \<open>text\<close>\<close>
  startIndex :: int
  endIndex :: int

text \<open>
  The \<open>for\<close> loop of \<open>createSlidingWindows\<close>, entered at the test \<open>i < tokens.length\<close>.
  With a non-positive stride the loop need not end, so it is a partial function:
  \<open>None\<close> is a run that never returns.
\<close>

partial_function (option) windowLoop ::
  "string list \<Rightarrow> int \<Rightarrow> int \<Rightarrow> int \<Rightarrow> SlidingWindow list \<Rightarrow> SlidingWindow list option"
where
  "windowLoop tokens windowSize stride i windows =
     (if i < int (length tokens) then
        (let windowTokens = slice tokens i (i + windowSize) in
         if real (length windowTokens) < real_of_int windowSize * 0.25 then Some windows
         else
           (let windows' = windows @
                  [\<lparr>wtext = join windowTokens, startIndex = i,
                    endIndex = i + int (length windowTokens)\<rparr>]
            in if i + windowSize \<ge> int (length tokens) then Some windows'
               else windowLoop tokens windowSize stride (i + stride) windows'))
      else Some windows)"

declare windowLoop.simps [code]

definition createSlidingWindowsOf ::
  "string list \<Rightarrow> int \<Rightarrow> int \<Rightarrow> SlidingWindow list option" where
  \<comment> \<open>the body of \<open>createSlidingWindows\<close> after \<open>const tokens = tokenize(text)\<close>\<close>
  "createSlidingWindowsOf tokens windowSize overlap =
     (if int (length tokens) \<le> windowSize then
        Some [\<lparr>wtext = join tokens, startIndex = 0, endIndex = int (length tokens)\<rparr>]
      else
        (let stride = windowSize - overlap
         in windowLoop tokens windowSize stride 0 []))"

definition createSlidingWindows :: "string \<Rightarrow> int \<Rightarrow> int \<Rightarrow> SlidingWindow list option" where
  "createSlidingWindows txt windowSize overlap =
     createSlidingWindowsOf (tokenize txt) windowSize overlap"

text \<open>Consecutive windows of a sequence share exactly \<open>overlap\<close> tokens: the next window
  starts \<open>overlap\<close> tokens before the end of the previous one.\<close>

fun overlapsBy :: "int \<Rightarrow> SlidingWindow list \<Rightarrow> bool" where
  "overlapsBy overlap (w1 # w2 # ws) =
     (startIndex w1 < startIndex w2 \<and> endIndex w1 - startIndex w2 = overlap \<and>
      endIndex w1 \<le> endIndex w2 \<and> overlapsBy overlap (w2 # ws))"
| "overlapsBy overlap ws = True"

text \<open>\<open>[...values].sort((a, b) => b - a)\<close>: a stable sort into descending order.\<close>

definition sortDescending :: "real list \<Rightarrow> real list" where
  "sortDescending values = sort_key (\<lambda>x. - x) values"

definition calculate75thPercentile :: "real list \<Rightarrow> real" where
  "calculate75thPercentile values =
     (if length values = 0 then 0
      else if length values = 1 then values ! 0
      else (let sorted = sortDescending values;
                index = nat \<lfloor>real (length sorted) * 0.25\<rfloor>
            in sorted ! index))"

section \<open>Embedding provider and cosine similarity (src/ml/embeddings.ts)\<close>

type_synonym Float32Array = "real list"
  \<comment> \<open>an embedding: a vector of finite components\<close>

text \<open>The loaded pipeline, called as \<open>this.model(text, {pooling: 'mean', normalize: true})\<close>:
  an external function that returns a vector or throws.\<close>

type_synonym backend = "string \<Rightarrow> error + Float32Array"

record EmbeddingModelSingleton =
  model :: "backend option"
  isLoading :: bool
  loadError :: "string option"

definition newEmbeddingModel :: EmbeddingModelSingleton where
  \<comment> \<open>the field initialisers of the class: the state before \<open>initialize\<close> is ever called\<close>
  "newEmbeddingModel = \<lparr>model = None, isLoading = False, loadError = None\<rparr>"

datatype Status = Loading | Ready | Error

text \<open>The busy wait of \<open>initialize\<close> for a load that another task has in flight. The states
  that the waiting task observes after each sleep are given by \<open>polls\<close>; \<open>None\<close> is a wait that
  never ends.\<close>

partial_function (option) waitWhileIsLoading ::
  "(nat \<Rightarrow> EmbeddingModelSingleton) \<Rightarrow> nat \<Rightarrow> EmbeddingModelSingleton option"
where
  "waitWhileIsLoading polls k =
     (if isLoading (polls k) then waitWhileIsLoading polls (Suc k) else Some (polls k))"

declare waitWhileIsLoading.simps [code]

text \<open>\<open>initialize\<close>: the first component of the result is the exception that the call throws,
  if any. \<open>load\<close> is the outcome of \<open>await pipeline(...)\<close>.\<close>

definition initialize ::
  "(error + backend) \<Rightarrow> (nat \<Rightarrow> EmbeddingModelSingleton) \<Rightarrow> EmbeddingModelSingleton
     \<Rightarrow> (error option \<times> EmbeddingModelSingleton) option" where
  "initialize load polls this =
     (if model this \<noteq> None then Some (None, this)
      else if isLoading this then
        (case waitWhileIsLoading polls 0 of
           None \<Rightarrow> None
         | Some this' \<Rightarrow> Some (None, this'))
      else
        (let this1 = this\<lparr>isLoading := True\<rparr> in
         case load of
           Inl e \<Rightarrow>
             Some (Some e, this1\<lparr>loadError := Some (errorMessage e), isLoading := False\<rparr>)
         | Inr m \<Rightarrow>
             (let this2 = this1\<lparr>model := Some m\<rparr> in
              case m ''warmup text'' of
                Inl e \<Rightarrow>
                  Some (Some e, this2\<lparr>loadError := Some (errorMessage e), isLoading := False\<rparr>)
              | Inr _ \<Rightarrow>
                  Some (None, this2\<lparr>loadError := None, isLoading := False\<rparr>))))"

text \<open>\<open>text.trim()\<close>\<close>

definition trim :: "string \<Rightarrow> string" where
  "trim s = rev (dropWhile isSpace (rev (dropWhile isSpace s)))"

definition computeEmbedding :: "EmbeddingModelSingleton \<Rightarrow> string \<Rightarrow> error + Float32Array" where
  "computeEmbedding this txt =
     (case model this of
        None \<Rightarrow> Inl ModelNotInitialized
      | Some m \<Rightarrow>
          if txt = [] \<or> length (trim txt) = 0 then Inl EmptyInput
          else m txt)"

text \<open>A string is truthy when it is neither \<open>null\<close> nor empty.\<close>

definition getStatus :: "EmbeddingModelSingleton \<Rightarrow> Status" where
  "getStatus this =
     (if (case loadError this of None \<Rightarrow> False | Some msg \<Rightarrow> msg \<noteq> []) then Error
      else if isLoading this then Loading
      else if model this \<noteq> None then Ready
      else Loading)"

definition getError :: "EmbeddingModelSingleton \<Rightarrow> string option" where
  "getError this = loadError this"

subsection \<open>JavaScript numbers\<close>

text \<open>
  The values of the type \<open>number\<close> and of the components of a \<open>Float32Array\<close>: \<open>NaN\<close>, the
  two infinities and the finite values. The arithmetic is that of IEEE 754: an operation on
  finite operands gives the exact result rounded by \<open>rnd\<close>, the rounding of the arithmetic in
  use, and the special values follow the rules of the standard. The sign of zero has no
  effect on the result of \<open>cosineSimilarity\<close> and is not kept; a division by zero is a
  division by \<open>+0\<close>. The components of a \<open>Float32Array\<close> are below \<open>2^128\<close> in size, so that
  no finite intermediate result of \<open>cosineSimilarity\<close> leaves the range of a double:
  overflow of a finite result is not modelled.
\<close>

datatype number = NaN | NegInf | PosInf | Fin real

definition infinityOfSign :: "real \<Rightarrow> number" where
  \<comment> \<open>a product or quotient that is infinite in size, from the sign it should have;
      \<open>0 * Infinity\<close> and \<open>0 / 0\<close> are \<open>NaN\<close>\<close>
  "infinityOfSign x = (if x = 0 then NaN else if 0 < x then PosInf else NegInf)"

fun numAdd :: "(real \<Rightarrow> real) \<Rightarrow> number \<Rightarrow> number \<Rightarrow> number" where
  "numAdd rnd NaN y = NaN"
| "numAdd rnd x NaN = NaN"
| "numAdd rnd PosInf NegInf = NaN"
| "numAdd rnd NegInf PosInf = NaN"
| "numAdd rnd PosInf y = PosInf"
| "numAdd rnd x PosInf = PosInf"
| "numAdd rnd NegInf y = NegInf"
| "numAdd rnd x NegInf = NegInf"
| "numAdd rnd (Fin x) (Fin y) = Fin (rnd (x + y))"

fun numMul :: "(real \<Rightarrow> real) \<Rightarrow> number \<Rightarrow> number \<Rightarrow> number" where
  "numMul rnd NaN y = NaN"
| "numMul rnd x NaN = NaN"
| "numMul rnd (Fin x) (Fin y) = Fin (rnd (x * y))"
| "numMul rnd (Fin x) PosInf = infinityOfSign x"
| "numMul rnd (Fin x) NegInf = infinityOfSign (- x)"
| "numMul rnd PosInf (Fin y) = infinityOfSign y"
| "numMul rnd NegInf (Fin y) = infinityOfSign (- y)"
| "numMul rnd PosInf PosInf = PosInf"
| "numMul rnd NegInf NegInf = PosInf"
| "numMul rnd PosInf NegInf = NegInf"
| "numMul rnd NegInf PosInf = NegInf"

fun numDiv :: "(real \<Rightarrow> real) \<Rightarrow> number \<Rightarrow> number \<Rightarrow> number" where
  "numDiv rnd NaN y = NaN"
| "numDiv rnd x NaN = NaN"
| "numDiv rnd (Fin x) (Fin y) = (if y = 0 then infinityOfSign x else Fin (rnd (x / y)))"
| "numDiv rnd (Fin x) PosInf = Fin 0"
| "numDiv rnd (Fin x) NegInf = Fin 0"
| "numDiv rnd PosInf (Fin y) = (if y < 0 then NegInf else PosInf)"
| "numDiv rnd NegInf (Fin y) = (if y < 0 then PosInf else NegInf)"
| "numDiv rnd PosInf PosInf = NaN"
| "numDiv rnd PosInf NegInf = NaN"
| "numDiv rnd NegInf PosInf = NaN"
| "numDiv rnd NegInf NegInf = NaN"

text \<open>\<open>Math.sqrt\<close>, \<open>Math.min\<close> and \<open>Math.max\<close>\<close>

fun numSqrt :: "(real \<Rightarrow> real) \<Rightarrow> number \<Rightarrow> number" where
  "numSqrt rnd NaN = NaN"
| "numSqrt rnd NegInf = NaN"
| "numSqrt rnd PosInf = PosInf"
| "numSqrt rnd (Fin x) = (if x < 0 then NaN else Fin (rnd (sqrt x)))"

fun mathMin :: "number \<Rightarrow> number \<Rightarrow> number" where
  "mathMin NaN y = NaN"
| "mathMin x NaN = NaN"
| "mathMin NegInf y = NegInf"
| "mathMin x NegInf = NegInf"
| "mathMin PosInf y = y"
| "mathMin x PosInf = x"
| "mathMin (Fin x) (Fin y) = Fin (min x y)"

fun mathMax :: "number \<Rightarrow> number \<Rightarrow> number" where
  "mathMax NaN y = NaN"
| "mathMax x NaN = NaN"
| "mathMax PosInf y = PosInf"
| "mathMax x PosInf = PosInf"
| "mathMax NegInf y = y"
| "mathMax x NegInf = x"
| "mathMax (Fin x) (Fin y) = Fin (max x y)"

subsection \<open>Cosine similarity\<close>

text \<open>The accumulation loop of \<open>cosineSimilarity\<close> over \<open>i = 0, ..., a.length - 1\<close>; the
  state is \<open>(dotProduct, normA, normB)\<close>.\<close>

definition cosineLoop ::
  "(real \<Rightarrow> real) \<Rightarrow> number list \<Rightarrow> number list \<Rightarrow> number \<times> number \<times> number" where
  "cosineLoop rnd a b =
     fold (\<lambda>i (dotProduct, normA, normB).
             (numAdd rnd dotProduct (numMul rnd (a ! i) (b ! i)),
              numAdd rnd normA (numMul rnd (a ! i) (a ! i)),
              numAdd rnd normB (numMul rnd (b ! i) (b ! i))))
          [0..<length a] (Fin 0, Fin 0, Fin 0)"

definition cosineSimilarity ::
  "(real \<Rightarrow> real) \<Rightarrow> number list \<Rightarrow> number list \<Rightarrow> error + number" where
  "cosineSimilarity rnd a b =
     (if length a \<noteq> length b then Inl DimensionMismatch
      else
        (let (dotProduct, normA, normB) = cosineLoop rnd a b;
             denominator = numMul rnd (numSqrt rnd normA) (numSqrt rnd normB)
         in if denominator = Fin 0 then Inr (Fin 0)
            else Inr (mathMax (Fin 0) (mathMin (Fin 1) (numDiv rnd dotProduct denominator)))))"

text \<open>The quantities the claims speak of: the dot product and the norm of vectors of finite
  components, exact and as the rounded arithmetic computes them, and the raw cosine as
  computed.\<close>

definition dot :: "real list \<Rightarrow> real list \<Rightarrow> real" where
  "dot a b = sum_list (map2 (*) a b)"

definition norm2 :: "real list \<Rightarrow> real" where
  "norm2 a = sqrt (dot a a)"

definition roundedDot :: "(real \<Rightarrow> real) \<Rightarrow> real list \<Rightarrow> real list \<Rightarrow> real" where
  "roundedDot rnd a b = foldl (\<lambda>s (x, y). rnd (s + rnd (x * y))) 0 (zip a b)"

definition roundedNorm :: "(real \<Rightarrow> real) \<Rightarrow> real list \<Rightarrow> real" where
  "roundedNorm rnd a = rnd (sqrt (roundedDot rnd a a))"

definition roundedDenominator :: "(real \<Rightarrow> real) \<Rightarrow> real list \<Rightarrow> real list \<Rightarrow> real" where
  "roundedDenominator rnd a b = rnd (roundedNorm rnd a * roundedNorm rnd b)"

definition rawCosine :: "(real \<Rightarrow> real) \<Rightarrow> real list \<Rightarrow> real list \<Rightarrow> real" where
  "rawCosine rnd a b = rnd (roundedDot rnd a b / roundedDenominator rnd a b)"

text \<open>
  The aggregator below is modelled on vectors of finite components with exact arithmetic.
  There \<open>cosineSimilarity\<close> is the following function: it is the function above with the
  identity as rounding (lemma \<open>cosineSimilarity_exact\<close>).
\<close>

definition cosineSimilarityExact :: "Float32Array \<Rightarrow> Float32Array \<Rightarrow> error + real" where
  "cosineSimilarityExact a b =
     (if length a \<noteq> length b then Inl DimensionMismatch
      else
        (let denominator = sqrt (dot a a) * sqrt (dot b b)
         in if denominator = 0 then Inr 0
            else Inr (max 0 (min 1 (dot a b / denominator)))))"

section \<open>Keyword cache, aggregation and decision (src/background.ts)\<close>

text \<open>
  The module-level variables that the relevance engine uses. \<open>mlModelStatus\<close> is \<open>None\<close> for
  \<open>null\<close>. The cache is a plain object used as a dictionary from keyword to vector; the
  map holds the entries of the object itself.
  \<open>embedCalls\<close> is not a variable of the program: it records, in order, the texts passed to
  \<open>embeddingModel.computeEmbedding\<close>, so that statements about which embeddings are computed
  can be made.
\<close>

record Globals =
  mlModelStatus :: "Status option"
  mlModelError :: "string option"
  keywordEmbeddingCache :: "string \<rightharpoonup> Float32Array"
  embeddingModel :: EmbeddingModelSingleton
  embedCalls :: "string list"

text \<open>What the surroundings of a call contribute: the outcome of loading the pipeline, and
  the states that a busy wait observes after each of its sleeps, written by the tasks that run
  in between.\<close>

record Env =
  pipeline :: "error + backend"
  providerPolls :: "nat \<Rightarrow> EmbeddingModelSingleton"
  globalsPolls :: "nat \<Rightarrow> Globals"

text \<open>
  \<open>keywordEmbeddingCache[keyword]\<close>. The cache is created as \<open>{}\<close>, so a lookup that finds no
  entry of the cache itself finds, for the property names of \<open>Object.prototype\<close>, the inherited
  value: a function, or the prototype object for \<open>__proto__\<close>. These values are truthy, as every
  \<open>Float32Array\<close> is.
\<close>

definition objectPrototypeNames :: "string list" where
  "objectPrototypeNames =
     [''constructor'', ''__defineGetter__'', ''__defineSetter__'', ''hasOwnProperty'',
      ''__lookupGetter__'', ''__lookupSetter__'', ''isPrototypeOf'', ''propertyIsEnumerable'',
      ''toString'', ''valueOf'', ''__proto__'', ''toLocaleString'']"

datatype lookup = Undefined | Embedding Float32Array | Inherited

definition cacheLookup :: "(string \<rightharpoonup> Float32Array) \<Rightarrow> string \<Rightarrow> lookup" where
  "cacheLookup cache keyword =
     (case cache keyword of
        Some embedding \<Rightarrow> Embedding embedding
      | None \<Rightarrow> if keyword \<in> set objectPrototypeNames then Inherited else Undefined)"

text \<open>\<open>initializeMLModel\<close>. Its \<open>try\<close> block awaits \<open>embeddingModel.initialize\<close>; the call
  of \<open>chrome.storage.sync.get\<close> after it only registers a callback, which runs as a later task
  (a call of \<open>precomputeKeywordEmbeddings\<close>). The first component of the result is the
  exception that leaves the function.\<close>

definition initializeMLModel :: "Env \<Rightarrow> Globals \<Rightarrow> (error option \<times> Globals) option" where
  "initializeMLModel env g =
     (let g1 = g\<lparr>mlModelStatus := Some Loading\<rparr> in
      case initialize (pipeline env) (providerPolls env) (embeddingModel g1) of
        None \<Rightarrow> None
      | Some (None, this') \<Rightarrow>
          Some (None, g1\<lparr>embeddingModel := this', mlModelStatus := Some Ready,
                          mlModelError := None\<rparr>)
      | Some (Some e, this') \<Rightarrow>
          Some (None, g1\<lparr>embeddingModel := this', mlModelStatus := Some Error,
                          mlModelError := Some (errorMessage e)\<rparr>))"

text \<open>The body of the \<open>try\<close> block of \<open>precomputeKeywordEmbeddings\<close> for one keyword.\<close>

definition cacheKeyword :: "Globals \<Rightarrow> string \<Rightarrow> error option \<times> Globals" where
  "cacheKeyword g keyword =
     (if cacheLookup (keywordEmbeddingCache g) keyword = Undefined then
        (let g1 = g\<lparr>embedCalls := embedCalls g @ [keyword]\<rparr> in
         case computeEmbedding (embeddingModel g) keyword of
           Inl e \<Rightarrow> (Some e, g1)
         | Inr embedding \<Rightarrow>
             (None, g1\<lparr>keywordEmbeddingCache := (keywordEmbeddingCache g1)(keyword \<mapsto> embedding)\<rparr>))
      else (None, g))"

text \<open>The \<open>for\<close> loop over the keywords; its \<open>catch\<close> logs the exception and goes on.\<close>

fun precomputeLoop :: "Globals \<Rightarrow> string list \<Rightarrow> error option \<times> Globals" where
  "precomputeLoop g [] = (None, g)"
| "precomputeLoop g (keyword # keywords) =
     (case cacheKeyword g keyword of
        (Some e, g') \<Rightarrow> precomputeLoop g' keywords
      | (None, g') \<Rightarrow> precomputeLoop g' keywords)"

definition precomputeKeywordEmbeddings :: "Globals \<Rightarrow> string list \<Rightarrow> error option \<times> Globals" where
  "precomputeKeywordEmbeddings g keywords =
     (if mlModelStatus g \<noteq> Some Ready then (None, g)
      else precomputeLoop g keywords)"

record SimilarityResult =
  blockedSimilarity :: real
  allowedSimilarity :: real
  shouldBlock :: bool

definition neutralResult :: SimilarityResult where
  "neutralResult = \<lparr>blockedSimilarity = 0, allowedSimilarity = 0, shouldBlock = False\<rparr>"

text \<open>The inner loop over a keyword list, with its running maximum. On an inherited value
  \<open>cosineSimilarity\<close> compares \<open>a.length\<close> with the \<open>length\<close> of a function, which is 0, 1 or 2,
  or of the prototype object, which is undefined, and raises; a page embedding of fewer than
  three components is not considered here.\<close>

fun maxSimilarity ::
  "(string \<rightharpoonup> Float32Array) \<Rightarrow> Float32Array \<Rightarrow> string list \<Rightarrow> real \<Rightarrow> error + real" where
  "maxSimilarity cache pageEmbedding [] maxSim = Inr maxSim"
| "maxSimilarity cache pageEmbedding (keyword # keywords) maxSim =
     (case cacheLookup cache keyword of
        Undefined \<Rightarrow> maxSimilarity cache pageEmbedding keywords maxSim
      | Inherited \<Rightarrow> Inl DimensionMismatch
      | Embedding keywordEmbedding \<Rightarrow>
          (case cosineSimilarityExact pageEmbedding keywordEmbedding of
             Inl e \<Rightarrow> Inl e
           | Inr similarity \<Rightarrow>
               maxSimilarity cache pageEmbedding keywords (max maxSim similarity)))"

text \<open>The state of the loop over the windows: the two score lists, and the texts of the
  windows handed to \<open>computeEmbedding\<close> so far.\<close>

record WindowScores =
  blockedSimilarities :: "real list"
  allowedSimilarities :: "real list"
  embedded :: "string list"

text \<open>The loop over the windows. \<open>totalWindows\<close> is \<open>windows.length\<close>. The result is the exception
  that ends the loop, if any, and the state in which the loop is left.\<close>

fun processWindows ::
  "EmbeddingModelSingleton \<Rightarrow> (string \<rightharpoonup> Float32Array) \<Rightarrow> nat \<Rightarrow> string list \<Rightarrow> string list
     \<Rightarrow> SlidingWindow list \<Rightarrow> WindowScores \<Rightarrow> error option \<times> WindowScores" where
  "processWindows this cache totalWindows blockedKeywords allowedKeywords [] st = (None, st)"
| "processWindows this cache totalWindows blockedKeywords allowedKeywords (window # windows) st =
     (let st1 = st\<lparr>embedded := embedded st @ [wtext window]\<rparr> in
      case computeEmbedding this (wtext window) of
        Inl e \<Rightarrow> (Some e, st1)
      | Inr pageEmbedding \<Rightarrow>
          (case maxSimilarity cache pageEmbedding blockedKeywords 0 of
             Inl e \<Rightarrow> (Some e, st1)
           | Inr maxBlockedSim \<Rightarrow>
               (let st2 = st1\<lparr>blockedSimilarities := blockedSimilarities st1 @ [maxBlockedSim]\<rparr> in
                case maxSimilarity cache pageEmbedding allowedKeywords 0 of
                  Inl e \<Rightarrow> (Some e, st2)
                | Inr maxAllowedSim \<Rightarrow>
                    (let st3 = st2\<lparr>allowedSimilarities :=
                                       allowedSimilarities st2 @ [maxAllowedSim]\<rparr> in
                     if maxBlockedSim > 0.85 \<and>
                        int (length (blockedSimilarities st3)) \<ge> \<lceil>real totalWindows * 0.5\<rceil>
                     then (None, st3)
                     else processWindows this cache totalWindows blockedKeywords allowedKeywords
                            windows st3))))"

definition BLOCK_THRESHOLD :: real where
  "BLOCK_THRESHOLD = 0.30"

definition ALLOW_THRESHOLD :: real where
  "ALLOW_THRESHOLD = 0.55"

text \<open>The decision at the end of the \<open>try\<close> block of \<open>computePageSimilarity\<close>, from the two
  pooled scores to the result.\<close>

definition decide :: "real \<Rightarrow> real \<Rightarrow> SimilarityResult" where
  "decide blockedSim allowedSim =
     \<lparr>blockedSimilarity = blockedSim, allowedSimilarity = allowedSim,
      shouldBlock = (blockedSim > BLOCK_THRESHOLD \<and> allowedSim < ALLOW_THRESHOLD)\<rparr>"

text \<open>The \<open>try\<close> block of \<open>computePageSimilarity\<close>: \<open>Inl\<close> is an exception raised inside
  it.\<close>

definition aggregate ::
  "Globals \<Rightarrow> string \<Rightarrow> string list \<Rightarrow> string list
     \<Rightarrow> ((error + SimilarityResult) \<times> Globals) option" where
  "aggregate g txt blockedKeywords allowedKeywords =
     (case createSlidingWindows txt 512 128 of
        None \<Rightarrow> None
      | Some windows \<Rightarrow>
          (let (raised, st) =
                 processWindows (embeddingModel g) (keywordEmbeddingCache g) (length windows)
                   blockedKeywords allowedKeywords windows
                   \<lparr>blockedSimilarities = [], allowedSimilarities = [], embedded = []\<rparr>;
               g' = g\<lparr>embedCalls := embedCalls g @ embedded st\<rparr>
           in case raised of
                Some e \<Rightarrow> Some (Inl e, g')
              | None \<Rightarrow>
                  Some (Inr (decide (calculate75thPercentile (blockedSimilarities st))
                                    (calculate75thPercentile (allowedSimilarities st))), g')))"

text \<open>The busy wait of \<open>computePageSimilarity\<close> while another task's initialisation is in
  flight.\<close>

partial_function (option) waitWhileStatusLoading ::
  "(nat \<Rightarrow> Globals) \<Rightarrow> nat \<Rightarrow> Globals option"
where
  "waitWhileStatusLoading polls k =
     (if mlModelStatus (polls k) = Some Loading then waitWhileStatusLoading polls (Suc k)
      else Some (polls k))"

declare waitWhileStatusLoading.simps [code]

text \<open>The first statement of \<open>computePageSimilarity\<close>: initialise the model if that was
  never tried or has failed, wait if an initialisation is in flight.\<close>

definition ensureModel :: "Env \<Rightarrow> Globals \<Rightarrow> (error option \<times> Globals) option" where
  "ensureModel env g =
     (if mlModelStatus g = None \<or> mlModelStatus g = Some Error then initializeMLModel env g
      else if mlModelStatus g = Some Loading then
        (case waitWhileStatusLoading (globalsPolls env) 0 of
           None \<Rightarrow> None
         | Some g' \<Rightarrow> Some (None, g'))
      else Some (None, g))"

text \<open>\<open>computePageSimilarity\<close>. \<open>Inl\<close> is an exception that reaches the caller, \<open>None\<close> a call
  that never returns.\<close>

definition computePageSimilarity ::
  "Env \<Rightarrow> Globals \<Rightarrow> string \<Rightarrow> string list \<Rightarrow> string list
     \<Rightarrow> ((error + SimilarityResult) \<times> Globals) option" where
  "computePageSimilarity env g txt blockedKeywords allowedKeywords =
     (case ensureModel env g of
        None \<Rightarrow> None
      | Some (Some e, g1) \<Rightarrow> Some (Inl e, g1)
      | Some (None, g1) \<Rightarrow>
          if mlModelStatus g1 \<noteq> Some Ready then Some (Inr neutralResult, g1)
          else
            (case aggregate g1 txt blockedKeywords allowedKeywords of
               None \<Rightarrow> None
             | Some (Inl e, g2) \<Rightarrow> Some (Inr neutralResult, g2)
             | Some (Inr result, g2) \<Rightarrow> Some (Inr result, g2)))"

section \<open>A small configuration for concrete runs\<close>

text \<open>A backend that fails on one text and embeds every other text on one of two axes; a
  state in which the model is ready and two keywords are cached; four windows; and
  surroundings in which the pipeline loads and nothing else happens.\<close>

definition demoBackend :: backend where
  "demoBackend t =
     (if t = ''boom'' then Inl (BackendError ''bad input'')
      else if t = ''play one'' \<or> t = ''play two'' then Inr [1, 0]
      else Inr [0, 1])"

definition demoGlobals :: Globals where
  "demoGlobals =
     \<lparr>mlModelStatus = Some Ready, mlModelError = None,
      keywordEmbeddingCache = [''gaming'' \<mapsto> [1, 0], ''study'' \<mapsto> [0, 1]],
      embeddingModel = \<lparr>model = Some demoBackend, isLoading = False, loadError = None\<rparr>,
      embedCalls = []\<rparr>"

definition demoWindows :: "SlidingWindow list" where
  "demoWindows =
     [\<lparr>wtext = ''play one'', startIndex = 0, endIndex = 2\<rparr>,
      \<lparr>wtext = ''play two'', startIndex = 1, endIndex = 3\<rparr>,
      \<lparr>wtext = ''quiet one'', startIndex = 2, endIndex = 4\<rparr>,
      \<lparr>wtext = ''quiet two'', startIndex = 3, endIndex = 5\<rparr>]"

definition demoEnv :: Env where
  "demoEnv =
     \<lparr>pipeline = Inr demoBackend,
      providerPolls = (\<lambda>_. embeddingModel demoGlobals),
      globalsPolls = (\<lambda>_. demoGlobals)\<rparr>"

definition roundDown :: "real \<Rightarrow> real" where
  \<comment> \<open>a coarse rounding: down to the next integer\<close>
  "roundDown x = of_int \<lfloor>x\<rfloor>"

definition newGlobals :: Globals where
  \<comment> \<open>the module-level initialisers of the background script\<close>
  "newGlobals =
     \<lparr>mlModelStatus = None, mlModelError = None, keywordEmbeddingCache = Map.empty,
      embeddingModel = newEmbeddingModel, embedCalls = []\<rparr>"

section \<open>Properties of the tokenizer and of pooling\<close>

subsection \<open>The tokenizer's window loop\<close>

lemma slice_length_nonneg:
  "0 \<le> i \<Longrightarrow> 0 \<le> w \<Longrightarrow>
   int (length (slice xs i (i + w))) = min (i + w) (int (length xs)) - min i (int (length xs))"
  by (auto simp: slice_def Let_def min_def)

lemma quarter_less_iff:
  "(real m < real_of_int W * 0.25) = (4 * int m < W)"
proof -
  have "(real m < real_of_int W * 0.25) = (real_of_int (4 * int m) < real_of_int W)"
    by (simp add: mult.commute)
  then show ?thesis by (simp only: of_int_less_iff)
qed

lemma windowLoop_pos_stride:
  assumes "0 < s" "0 < W" "0 \<le> i"
  shows "\<exists>new. windowLoop tokens W s i ws = Some (ws @ new)
           \<and> (new \<noteq> [] \<longrightarrow> startIndex (hd new) = i \<and> endIndex (hd new) = min (i + W) (int (length tokens)))
           \<and> overlapsBy (W - s) new
           \<and> (\<forall>w \<in> set new. startIndex w < endIndex w)
           \<and> (s \<le> W \<and> W \<le> 4 * (W - s + 1) \<and> i < int (length tokens) \<and> W - s < int (length tokens) - i
                \<longrightarrow> new \<noteq> [] \<and> endIndex (last new) = int (length tokens))"
  using assms
proof (induction "nat (int (length tokens) - i)" arbitrary: i ws rule: less_induct)
  case less
  let ?n = "int (length tokens)"
  let ?wt = "slice tokens i (i + W)"
  let ?w = "\<lparr>wtext = join ?wt, startIndex = i, endIndex = i + int (length ?wt)\<rparr>"
  have len: "int (length ?wt) = min (i + W) ?n - min i ?n"
    using less.prems by (simp add: slice_length_nonneg)
  show ?case
  proof (cases "i < ?n")
    case False
    then have "windowLoop tokens W s i ws = Some (ws @ [])"
      by (subst windowLoop.simps) simp
    then show ?thesis using False by auto
  next
    case inb: True
    show ?thesis
    proof (cases "real (length ?wt) < real_of_int W * 0.25")
      case True
      then have "windowLoop tokens W s i ws = Some (ws @ [])"
        using inb by (subst windowLoop.simps) (simp add: Let_def)
      moreover have "\<not> (s \<le> W \<and> W \<le> 4 * (W - s + 1) \<and> W - s < ?n - i)"
      proof
        assume h: "s \<le> W \<and> W \<le> 4 * (W - s + 1) \<and> W - s < ?n - i"
        have "4 * int (length ?wt) < W" using True by (simp only: quarter_less_iff)
        then show False using h len inb less.prems by (auto simp: min_def split: if_splits)
      qed
      ultimately show ?thesis by auto
    next
      case nodiscard: False
      have pos: "0 < int (length ?wt)"
        using nodiscard less.prems(2) by (auto simp: quarter_less_iff)
      show ?thesis
      proof (cases "i + W \<ge> ?n")
        case True
        then have "windowLoop tokens W s i ws = Some (ws @ [?w])"
          using inb nodiscard by (subst windowLoop.simps) (simp add: Let_def)
        moreover have "endIndex ?w = ?n" using len True inb by (simp add: min_def)
        ultimately show ?thesis using pos True inb by auto
      next
        case False
        then have step: "windowLoop tokens W s i ws = windowLoop tokens W s (i + s) (ws @ [?w])"
          using inb nodiscard by (subst windowLoop.simps) (simp add: Let_def)
        have lenW: "int (length ?wt) = W" using len False inb by (simp add: min_def)
        have "nat (?n - (i + s)) < nat (?n - i)" using inb less.prems by simp
        from less.hyps[OF this, of "ws @ [?w]"] less.prems
        obtain new where new:
          "windowLoop tokens W s (i + s) (ws @ [?w]) = Some ((ws @ [?w]) @ new)"
          "new \<noteq> [] \<longrightarrow> startIndex (hd new) = i + s \<and> endIndex (hd new) = min (i + s + W) ?n"
          "overlapsBy (W - s) new"
          "\<forall>w \<in> set new. startIndex w < endIndex w"
          "s \<le> W \<and> W \<le> 4 * (W - s + 1) \<and> i + s < ?n \<and> W - s < ?n - (i + s)
                \<longrightarrow> new \<noteq> [] \<and> endIndex (last new) = ?n"
          by auto
        have ov: "overlapsBy (W - s) (?w # new)"
        proof (cases new)
          case Nil then show ?thesis by simp
        next
          case (Cons a as)
          then have "startIndex a = i + s" "endIndex a = min (i + s + W) ?n" using new(2) by simp_all
          then show ?thesis using Cons new(3) lenW less.prems False by simp
        qed
        have A: "windowLoop tokens W s i ws = Some (ws @ (?w # new))"
          using step new(1) by simp
        have B: "startIndex (hd (?w # new)) = i \<and>
                 endIndex (hd (?w # new)) = min (i + W) ?n"
          using lenW False by simp
        have D: "\<forall>w \<in> set (?w # new). startIndex w < endIndex w"
          using new(4) pos by simp
        have E: "s \<le> W \<and> W \<le> 4 * (W - s + 1) \<and> i < ?n \<and> W - s < ?n - i
                 \<longrightarrow> ?w # new \<noteq> [] \<and> endIndex (last (?w # new)) = ?n"
        proof
          assume h: "s \<le> W \<and> W \<le> 4 * (W - s + 1) \<and> i < ?n \<and> W - s < ?n - i"
          then have "new \<noteq> [] \<and> endIndex (last new) = ?n"
            using new(5) False by simp
          then show "?w # new \<noteq> [] \<and> endIndex (last (?w # new)) = ?n" by simp
        qed
        show ?thesis
          by (rule exI[of _ "?w # new"]) (use A B ov D E in blast)
      qed
    qed
  qed
qed

lemma windowLoop_zero_stride_aux:
  assumes "windowLoop tokens W s i ws = Some y"
  shows "\<not> (s = 0 \<and> i = 0 \<and> W < int (length tokens) \<and> tokens \<noteq> [])"
proof (rule windowLoop.raw_induct
    [where P = "\<lambda>tokens W s i ws y. \<not> (s = 0 \<and> i = 0 \<and> W < int (length tokens) \<and> tokens \<noteq> [])",
     OF _ assms])
  fix f :: "string list \<Rightarrow> int \<Rightarrow> int \<Rightarrow> int \<Rightarrow> SlidingWindow list \<Rightarrow> SlidingWindow list option"
    and tokens :: "string list" and W s i :: int and ws y :: "SlidingWindow list"
  assume IH: "\<And>tokens W s i ws y. f tokens W s i ws = Some y \<Longrightarrow>
                \<not> (s = 0 \<and> i = 0 \<and> W < int (length tokens) \<and> tokens \<noteq> [])"
  assume step: "(if i < int (length tokens)
      then let windowTokens = slice tokens i (i + W)
           in if real (length windowTokens) < real_of_int W * 0.25
              then Some ws
              else let windows' = ws @
                         [\<lparr>wtext = join windowTokens, startIndex = i,
                             endIndex = i + int (length windowTokens)\<rparr>]
                   in if int (length tokens) \<le> i + W
                      then Some windows'
                      else f tokens W s (i + s) windows'
      else Some ws) = Some y"
  show "\<not> (s = 0 \<and> i = 0 \<and> W < int (length tokens) \<and> tokens \<noteq> [])"
  proof
    assume h: "s = 0 \<and> i = 0 \<and> W < int (length tokens) \<and> tokens \<noteq> []"
    let ?wt = "slice tokens 0 W"
    have nd: "\<not> real (length ?wt) < real_of_int W * 0.25"
      using h by (auto simp: quarter_less_iff slice_def Let_def min_def max_def)
    from step h nd obtain ws' where "f tokens W 0 0 ws' = Some y"
      by (auto simp: Let_def split: if_splits)
    from IH[OF this] h show False by simp
  qed
qed

lemma windowLoop_windows_nonempty:
  assumes "windowLoop tokens W s i ws = Some y"
  shows "0 < W \<longrightarrow> (\<forall>w \<in> set ws. startIndex w < endIndex w) \<longrightarrow>
         (\<forall>w \<in> set y. startIndex w < endIndex w)"
proof (rule windowLoop.raw_induct
    [where P = "\<lambda>tokens W s i ws y. 0 < W \<longrightarrow> (\<forall>w \<in> set ws. startIndex w < endIndex w) \<longrightarrow>
         (\<forall>w \<in> set y. startIndex w < endIndex w)", OF _ assms])
  fix f :: "string list \<Rightarrow> int \<Rightarrow> int \<Rightarrow> int \<Rightarrow> SlidingWindow list \<Rightarrow> SlidingWindow list option"
    and tokens :: "string list" and W s i :: int and ws y :: "SlidingWindow list"
  assume IH: "\<And>tokens W s i ws y. f tokens W s i ws = Some y \<Longrightarrow>
                0 < W \<longrightarrow> (\<forall>w \<in> set ws. startIndex w < endIndex w) \<longrightarrow>
                (\<forall>w \<in> set y. startIndex w < endIndex w)"
  assume step: "(if i < int (length tokens)
      then let windowTokens = slice tokens i (i + W)
           in if real (length windowTokens) < real_of_int W * 0.25
              then Some ws
              else let windows' = ws @
                         [\<lparr>wtext = join windowTokens, startIndex = i,
                             endIndex = i + int (length windowTokens)\<rparr>]
                   in if int (length tokens) \<le> i + W
                      then Some windows'
                      else f tokens W s (i + s) windows'
      else Some ws) = Some y"
  let ?wt = "slice tokens i (i + W)"
  let ?w = "\<lparr>wtext = join ?wt, startIndex = i, endIndex = i + int (length ?wt)\<rparr>"
  show "0 < W \<longrightarrow> (\<forall>w \<in> set ws. startIndex w < endIndex w) \<longrightarrow>
         (\<forall>w \<in> set y. startIndex w < endIndex w)"
  proof (intro impI)
    assume W: "0 < W" and ws: "\<forall>w \<in> set ws. startIndex w < endIndex w"
    show "\<forall>w \<in> set y. startIndex w < endIndex w"
    proof (cases "i < int (length tokens) \<and> \<not> real (length ?wt) < real_of_int W * 0.25")
      case False
      then have "y = ws" using step by (auto simp: Let_def split: if_splits)
      then show ?thesis using ws by simp
    next
      case True
      then have "0 < int (length ?wt)" using W by (auto simp: quarter_less_iff)
      then have good: "\<forall>w \<in> set (ws @ [?w]). startIndex w < endIndex w"
        using ws by simp
      show ?thesis
      proof (cases "i + W \<ge> int (length tokens)")
        case True
        then have "y = ws @ [?w]" using step \<open>i < int (length tokens) \<and> _\<close> by (simp add: Let_def)
        then show ?thesis using good by blast
      next
        case False
        then have "f tokens W s (i + s) (ws @ [?w]) = Some y"
          using step True by (simp add: Let_def)
        from IH[OF this] W good show ?thesis by blast
      qed
    qed
  qed
qed

lemma createSlidingWindows_zero_stride_diverges:
  assumes "overlap = windowSize" "windowSize < int (length (tokenize txt))" "tokenize txt \<noteq> []"
  shows "createSlidingWindows txt windowSize overlap = None"
proof (cases "createSlidingWindows txt windowSize overlap")
  case None
  then show ?thesis .
next
  case (Some y)
  then have "windowLoop (tokenize txt) windowSize 0 0 [] = Some y"
    using assms by (simp add: createSlidingWindows_def createSlidingWindowsOf_def)
  from windowLoop_zero_stride_aux[OF this] assms show ?thesis by auto
qed

text \<open>
  C4 (as amended). For a text with more tokens than \<open>windowSize\<close>, and \<open>0 < overlap < windowSize\<close>,
  \<open>createSlidingWindows\<close> returns, and every two consecutive windows of the result overlap by
  exactly \<open>overlap\<close> tokens. If moreover \<open>windowSize \<le> 4 * (overlap + 1)\<close>, as for the sizes 512
  and 128 that the aggregator passes, no trailing slice is discarded: the result has more than
  one window and the last window ends at the token count.
\<close>

theorem createSlidingWindows_long_text:
  assumes "0 < overlap" "overlap < windowSize" "windowSize < int (length (tokenize txt))"
  shows "\<exists>windows. createSlidingWindows txt windowSize overlap = Some windows \<and>
           overlapsBy overlap windows \<and>
           (windowSize \<le> 4 * (overlap + 1) \<longrightarrow>
              1 < length windows \<and> endIndex (last windows) = int (length (tokenize txt)))"
proof -
  let ?n = "int (length (tokenize txt))"
  let ?s = "windowSize - overlap"
  have s: "0 < ?s" "0 < windowSize" "(0::int) \<le> 0" using assms by simp_all
  from windowLoop_pos_stride[OF s, of "tokenize txt" "[]"]
  obtain new where new:
    "windowLoop (tokenize txt) windowSize ?s 0 [] = Some new"
    "new \<noteq> [] \<longrightarrow> startIndex (hd new) = 0 \<and> endIndex (hd new) = min windowSize ?n"
    "overlapsBy overlap new"
    "?s \<le> windowSize \<and> windowSize \<le> 4 * (windowSize - ?s + 1) \<and> 0 < ?n \<and>
       windowSize - ?s < ?n - 0 \<longrightarrow> new \<noteq> [] \<and> endIndex (last new) = ?n"
    by auto
  have res: "createSlidingWindows txt windowSize overlap = Some new"
    using assms new(1) by (simp add: createSlidingWindows_def createSlidingWindowsOf_def)
  have "1 < length new \<and> endIndex (last new) = ?n" if q: "windowSize \<le> 4 * (overlap + 1)"
  proof -
    have "tokenize txt \<noteq> []" using assms by auto
    then have ne: "new \<noteq> []" and lst: "endIndex (last new) = ?n"
      using new(4) q assms by simp_all
    have "endIndex (hd new) = windowSize" using new(2) ne assms by simp
    then have "hd new \<noteq> last new" using lst assms by auto
    then have "1 < length new" using ne by (cases new) (auto split: if_splits)
    then show ?thesis using lst by simp
  qed
  then show ?thesis using res new(3) by blast
qed

theorem createSlidingWindows_long_text_witness:
  "(0::int) < 2 \<and> (2::int) < 4 \<and> 4 < int (length (tokenize ''a b c d e f g h i j'')) \<and>
   (4::int) \<le> 4 * (2 + 1) \<and>
   (\<exists>windows. createSlidingWindows ''a b c d e f g h i j'' 4 2 = Some windows \<and>
      overlapsBy 2 windows \<and> 1 < length windows \<and>
      endIndex (last windows) = int (length (tokenize ''a b c d e f g h i j'')))"
proof -
  have h: "4 < int (length (tokenize ''a b c d e f g h i j''))" by code_simp
  from createSlidingWindows_long_text[of 2 4 "''a b c d e f g h i j''"] h
  show ?thesis by simp
qed

theorem createSlidingWindows_long_text_counterexample:
  "(0::int) < 1 \<and> (1::int) < 9 \<and> 9 < int (length (tokenize ''a b c d e f g h i j'')) \<and>
   int (length (tokenize ''a b c d e f g h i j'')) = 10 \<and>
   createSlidingWindows ''a b c d e f g h i j'' 9 1 =
     Some [\<lparr>wtext = ''a b c d e f g h i'', startIndex = 0, endIndex = 9\<rparr>]"
  by code_simp

text \<open>
  C5 (as amended). \<open>createSlidingWindows\<close> does not check the window configuration. With
  \<open>overlap \<ge> windowSize\<close> and a text of at most \<open>windowSize\<close> tokens it raises no error and
  returns the single window that covers all tokens.
\<close>

theorem createSlidingWindows_unchecked_configuration:
  assumes "overlap \<ge> windowSize" "int (length (tokenize txt)) \<le> windowSize"
  shows "createSlidingWindows txt windowSize overlap =
           Some [\<lparr>wtext = join (tokenize txt), startIndex = 0,
                  endIndex = int (length (tokenize txt))\<rparr>]"
  using assms by (simp add: createSlidingWindows_def createSlidingWindowsOf_def)

theorem createSlidingWindows_unchecked_configuration_witness:
  "(7::int) \<ge> 4 \<and> int (length (tokenize ''Deep  focus time'')) \<le> 4 \<and>
   createSlidingWindows ''Deep  focus time'' 4 7 =
     Some [\<lparr>wtext = ''deep focus time'', startIndex = 0, endIndex = 3\<rparr>]"
proof -
  have h: "int (length (tokenize ''Deep  focus time'')) \<le> 4" by code_simp
  have j: "join (tokenize ''Deep  focus time'') = ''deep focus time''" by code_simp
  have l: "int (length (tokenize ''Deep  focus time'')) = 3" by code_simp
  from createSlidingWindows_unchecked_configuration[of 4 7 "''Deep  focus time''"] h
  show ?thesis unfolding j l by simp
qed

theorem createSlidingWindows_unchecked_configuration_counterexample:
  "(512::int) \<ge> 512 \<and>
   createSlidingWindows ''a'' 512 512 = Some [\<lparr>wtext = ''a'', startIndex = 0, endIndex = 1\<rparr>] \<and>
   (1::int) \<ge> 1 \<and> createSlidingWindows ''a b'' 1 1 = None"
proof -
  have "createSlidingWindows ''a'' 512 512 = Some [\<lparr>wtext = ''a'', startIndex = 0, endIndex = 1\<rparr>]"
    by code_simp
  moreover have "(1::int) < int (length (tokenize ''a b''))" "tokenize ''a b'' \<noteq> []"
    by code_simp+
  then have "createSlidingWindows ''a b'' 1 1 = None"
    by (simp add: createSlidingWindows_zero_stride_diverges)
  ultimately show ?thesis by simp
qed

text \<open>
  C8 (as amended). For a text with at least one token and a positive \<open>windowSize\<close>, every
  window that \<open>createSlidingWindows\<close> returns satisfies \<open>startIndex < endIndex\<close>; the call
  returns whenever \<open>overlap < windowSize\<close>; and when the token count is at most \<open>windowSize\<close>
  the result is the single window from 0 to the token count.
\<close>

theorem createSlidingWindows_window_bounds:
  assumes "tokenize txt \<noteq> []" "0 < windowSize"
  shows "(overlap < windowSize \<longrightarrow>
            (\<exists>windows. createSlidingWindows txt windowSize overlap = Some windows)) \<and>
         (\<forall>windows. createSlidingWindows txt windowSize overlap = Some windows \<longrightarrow>
            (\<forall>w \<in> set windows. startIndex w < endIndex w)) \<and>
         (int (length (tokenize txt)) \<le> windowSize \<longrightarrow>
            createSlidingWindows txt windowSize overlap =
              Some [\<lparr>wtext = join (tokenize txt), startIndex = 0,
                     endIndex = int (length (tokenize txt))\<rparr>])"
proof (intro conjI impI allI)
  assume "overlap < windowSize"
  then have "0 < windowSize - overlap" by simp
  from windowLoop_pos_stride[OF this assms(2), of 0 "tokenize txt" "[]"]
  obtain new where "windowLoop (tokenize txt) windowSize (windowSize - overlap) 0 [] = Some new"
    by auto
  then show "\<exists>windows. createSlidingWindows txt windowSize overlap = Some windows"
    by (simp add: createSlidingWindows_def createSlidingWindowsOf_def)
next
  fix windows
  assume r: "createSlidingWindows txt windowSize overlap = Some windows"
  show "\<forall>w \<in> set windows. startIndex w < endIndex w"
  proof (cases "int (length (tokenize txt)) \<le> windowSize")
    case True
    then show ?thesis using r assms(1)
      by (auto simp: createSlidingWindows_def createSlidingWindowsOf_def)
  next
    case False
    then have "windowLoop (tokenize txt) windowSize (windowSize - overlap) 0 [] = Some windows"
      using r by (simp add: createSlidingWindows_def createSlidingWindowsOf_def)
    from windowLoop_windows_nonempty[OF this] assms(2) show ?thesis by simp
  qed
next
  assume "int (length (tokenize txt)) \<le> windowSize"
  then show "createSlidingWindows txt windowSize overlap =
              Some [\<lparr>wtext = join (tokenize txt), startIndex = 0,
                     endIndex = int (length (tokenize txt))\<rparr>]"
    by (simp add: createSlidingWindows_def createSlidingWindowsOf_def)
qed

theorem createSlidingWindows_window_bounds_witness:
  "tokenize ''a b c'' \<noteq> [] \<and> (0::int) < 2 \<and> (1::int) < 2 \<and>
   createSlidingWindows ''a b c'' 2 1 =
     Some [\<lparr>wtext = ''a b'', startIndex = 0, endIndex = 2\<rparr>,
           \<lparr>wtext = ''b c'', startIndex = 1, endIndex = 3\<rparr>] \<and>
   list_all (\<lambda>w. startIndex w < endIndex w)
     [\<lparr>wtext = ''a b'', startIndex = 0, endIndex = 2\<rparr>,
      \<lparr>wtext = ''b c'', startIndex = 1, endIndex = 3\<rparr>]"
proof -
  have h: "tokenize ''a b c'' \<noteq> []" by code_simp
  have r: "createSlidingWindows ''a b c'' 2 1 =
     Some [\<lparr>wtext = ''a b'', startIndex = 0, endIndex = 2\<rparr>,
           \<lparr>wtext = ''b c'', startIndex = 1, endIndex = 3\<rparr>]" by code_simp
  from createSlidingWindows_window_bounds[OF h, of 2 1] r
  have "\<forall>w \<in> set [\<lparr>wtext = ''a b'', startIndex = 0, endIndex = 2\<rparr>,
           \<lparr>wtext = ''b c'', startIndex = 1, endIndex = (3::int)\<rparr>]. startIndex w < endIndex w"
    by simp
  then show ?thesis using h r by simp
qed

theorem createSlidingWindows_window_bounds_counterexample:
  "createSlidingWindows [] 512 128 = Some [\<lparr>wtext = [], startIndex = 0, endIndex = 0\<rparr>] \<and>
   \<not> startIndex \<lparr>wtext = [], startIndex = 0, endIndex = 0\<rparr>
       < endIndex \<lparr>wtext = [], startIndex = 0, endIndex = 0\<rparr>"
  by code_simp

subsection \<open>Percentile pooling\<close>

lemma floor_quarter: "nat \<lfloor>real n * 0.25\<rfloor> = n div 4"
proof -
  have "real n * 0.25 = real n / 4" by simp
  then have "\<lfloor>real n * 0.25\<rfloor> = \<lfloor>real n / real 4\<rfloor>" by simp
  also have "\<dots> = int (n div 4)" by (simp only: floor_divide_of_nat_eq)
  finally show ?thesis by simp
qed

lemma sortDescending_mset: "mset (sortDescending values) = mset values"
  by (simp add: sortDescending_def)

lemma descending_iff: "sorted_wrt (\<lambda>a b. b \<le> a) ys = sorted (map uminus (ys :: real list))"
  by (simp add: sorted_wrt_map)

lemma sortDescending_sorted: "sorted_wrt (\<lambda>a b. b \<le> a) (sortDescending values)"
  unfolding descending_iff sortDescending_def by (rule sorted_sort_key)

lemma sortDescending_unique:
  assumes "mset ys = mset values" "sorted_wrt (\<lambda>a b. b \<le> a) ys"
  shows "ys = sortDescending values"
proof -
  have "map uminus ys = sort (map uminus values)"
  proof (rule properties_for_sort[symmetric])
    show "mset (map uminus ys) = mset (map uminus values)" using assms(1) by (metis mset_map)
    show "sorted (map uminus ys)" using assms(2) by (simp add: descending_iff)
  qed
  moreover have "map uminus (sortDescending values) = sort (map uminus values)"
  proof (rule properties_for_sort[symmetric])
    show "mset (map uminus (sortDescending values)) = mset (map uminus values)"
      by (metis mset_map sortDescending_mset)
    show "sorted (map uminus (sortDescending values))"
      using sortDescending_sorted by (simp add: descending_iff)
  qed
  ultimately have "map uminus ys = map uminus (sortDescending values)" by simp
  then show ?thesis by (simp add: inj_map_eq_map)
qed

text \<open>
  C3. \<open>calculate75thPercentile\<close> returns 0 for the empty list and the element of a one-element
  list; for a longer list it returns the element at index \<open>floor (length * 0.25)\<close>, which is in
  range, of the descending-sorted arrangement of the list. Pooling 0.1, ..., 0.8 gives 0.6.
\<close>

theorem calculate75thPercentile_pooling:
  "calculate75thPercentile [] = 0 \<and>
   calculate75thPercentile [x] = x \<and>
   (2 \<le> length values \<longrightarrow>
      (\<forall>sorted. mset sorted = mset values \<and> sorted_wrt (\<lambda>a b. b \<le> a) sorted \<longrightarrow>
         nat \<lfloor>real (length values) * 0.25\<rfloor> < length sorted \<and>
         calculate75thPercentile values = sorted ! nat \<lfloor>real (length values) * 0.25\<rfloor>)) \<and>
   calculate75thPercentile [0.1, 0.2, 0.3, 0.4, 0.5, 0.6, 0.7, 0.8] = 0.6"
proof (intro conjI impI allI)
  show "calculate75thPercentile [] = 0" by (simp add: calculate75thPercentile_def)
  show "calculate75thPercentile [x] = x" by (simp add: calculate75thPercentile_def)
  show "calculate75thPercentile [0.1, 0.2, 0.3, 0.4, 0.5, 0.6, 0.7, 0.8] = 0.6"
    by (simp add: calculate75thPercentile_def sortDescending_def)
next
  fix sorted :: "real list"
  assume len: "2 \<le> length values"
    and s: "mset sorted = mset values \<and> sorted_wrt (\<lambda>a b. b \<le> a) sorted"
  then have eq: "sorted = sortDescending values" by (simp add: sortDescending_unique)
  have l: "length sorted = length values" using s by (metis size_mset)
  show "nat \<lfloor>real (length values) * 0.25\<rfloor> < length sorted"
    unfolding floor_quarter using len l by simp
  show "calculate75thPercentile values = sorted ! nat \<lfloor>real (length values) * 0.25\<rfloor>"
  proof -
    have "length values \<noteq> 0" "length values \<noteq> 1" using len by auto
    then show ?thesis using l eq by (simp add: calculate75thPercentile_def Let_def)
  qed
qed

theorem calculate75thPercentile_pooling_witness:
  "2 \<le> length [3, 1, 2, 5, 4 :: real] \<and>
   mset [5, 4, 3, 2, 1 :: real] = mset [3, 1, 2, 5, 4] \<and>
   sorted_wrt (\<lambda>a b. b \<le> a) [5, 4, 3, 2, 1 :: real] \<and>
   nat \<lfloor>real (length [3, 1, 2, 5, 4 :: real]) * 0.25\<rfloor> < length [5, 4, 3, 2, 1 :: real] \<and>
   calculate75thPercentile [3, 1, 2, 5, 4] = 4"
proof -
  have h: "mset [5, 4, 3, 2, 1 :: real] = mset [3, 1, 2, 5, 4] \<and>
           sorted_wrt (\<lambda>a b. b \<le> a) [5, 4, 3, 2, 1 :: real]"
    by simp
  have i: "nat \<lfloor>real (length [3, 1, 2, 5, 4 :: real]) * 0.25\<rfloor> = 1"
    by simp
  have l: "2 \<le> length [3, 1, 2, 5, 4 :: real]" by simp
  from calculate75thPercentile_pooling[of 0 "[3, 1, 2, 5, 4]"] l
  have "\<forall>sorted. mset sorted = mset [3, 1, 2, 5, 4 :: real] \<and> sorted_wrt (\<lambda>a b. b \<le> a) sorted \<longrightarrow>
         nat \<lfloor>real (length [3, 1, 2, 5, 4 :: real]) * 0.25\<rfloor> < length sorted \<and>
         calculate75thPercentile [3, 1, 2, 5, 4] =
           sorted ! nat \<lfloor>real (length [3, 1, 2, 5, 4 :: real]) * 0.25\<rfloor>"
    by blast
  then have "nat \<lfloor>real (length [3, 1, 2, 5, 4 :: real]) * 0.25\<rfloor> < length [5, 4, 3, 2, 1 :: real] \<and>
         calculate75thPercentile [3, 1, 2, 5, 4] =
           [5, 4, 3, 2, 1] ! nat \<lfloor>real (length [3, 1, 2, 5, 4 :: real]) * 0.25\<rfloor>"
    using h by blast
  then show ?thesis using h l unfolding i by simp
qed

section \<open>Properties of the embedding provider, the cache and the aggregator\<close>

subsection \<open>Cosine similarity\<close>

lemma cosineLoop_prefix:
  assumes "length xs = length ys" "n \<le> length xs"
  shows "fold (\<lambda>i (dotProduct, normA, normB).
             (numAdd rnd dotProduct (numMul rnd (map Fin xs ! i) (map Fin ys ! i)),
              numAdd rnd normA (numMul rnd (map Fin xs ! i) (map Fin xs ! i)),
              numAdd rnd normB (numMul rnd (map Fin ys ! i) (map Fin ys ! i))))
          [0..<n] (Fin 0, Fin 0, Fin 0)
       = (Fin (foldl (\<lambda>s (x, y). rnd (s + rnd (x * y))) 0 (take n (zip xs ys))),
          Fin (foldl (\<lambda>s (x, y). rnd (s + rnd (x * y))) 0 (take n (zip xs xs))),
          Fin (foldl (\<lambda>s (x, y). rnd (s + rnd (x * y))) 0 (take n (zip ys ys))))"
  using assms(2)
proof (induction n)
  case 0
  then show ?case by simp
next
  case (Suc n)
  then have n: "n < length xs" "n < length ys" using assms(1) by simp_all
  have t: "take (Suc n) (zip xs ys) = take n (zip xs ys) @ [(xs ! n, ys ! n)]"
          "take (Suc n) (zip xs xs) = take n (zip xs xs) @ [(xs ! n, xs ! n)]"
          "take (Suc n) (zip ys ys) = take n (zip ys ys) @ [(ys ! n, ys ! n)]"
    using n by (simp_all add: take_Suc_conv_app_nth)
  show ?case using Suc n unfolding t by simp
qed

lemma cosineLoop_finite:
  assumes "length xs = length ys"
  shows "cosineLoop rnd (map Fin xs) (map Fin ys)
       = (Fin (roundedDot rnd xs ys), Fin (roundedDot rnd xs xs), Fin (roundedDot rnd ys ys))"
  using cosineLoop_prefix[OF assms, of "length xs" rnd] assms
  by (simp add: cosineLoop_def roundedDot_def)

lemma rounded_sum_nonneg:
  fixes rnd :: "real \<Rightarrow> real"
  assumes "mono rnd" "rnd 0 = 0" "0 \<le> s"
  shows "0 \<le> foldl (\<lambda>s (x, y). rnd (s + rnd (x * y))) s (zip xs xs)"
  using assms(3)
proof (induction xs arbitrary: s)
  case Nil
  then show ?case by simp
next
  case (Cons x xs)
  have "rnd 0 \<le> rnd (x * x)" by (rule monoD[OF assms(1)]) simp
  then have "0 \<le> s + rnd (x * x)" using Cons.prems assms(2) by simp
  then have "rnd 0 \<le> rnd (s + rnd (x * x))" by (rule monoD[OF assms(1)])
  then have "0 \<le> rnd (s + rnd (x * x))" using assms(2) by simp
  from Cons.IH[OF this] show ?case by simp
qed

lemma roundedDot_self_nonneg:
  assumes "mono rnd" "rnd 0 = 0"
  shows "0 \<le> roundedDot rnd xs xs"
  unfolding roundedDot_def using rounded_sum_nonneg[OF assms] by simp

lemma roundedDot_zero:
  assumes "rnd 0 = 0" "\<forall>x \<in> set xs. x = 0"
  shows "roundedDot rnd xs xs = 0"
proof -
  have "foldl (\<lambda>s (x, y). rnd (s + rnd (x * y))) 0 (zip xs xs) = 0"
    using assms(2) by (induction xs) (simp_all add: assms(1))
  then show ?thesis by (simp add: roundedDot_def)
qed

lemma dot_self_nonneg: "0 \<le> dot a a"
  unfolding dot_def by (induction a) simp_all

lemma norm2_zero:
  assumes "norm2 xs = 0"
  shows "\<forall>x \<in> set xs. x = 0"
proof -
  have "dot xs xs = 0" using assms by (simp add: norm2_def)
  then show ?thesis
  proof (induction xs)
    case Nil
    then show ?case by simp
  next
    case (Cons x xs)
    have "dot (x # xs) (x # xs) = x * x + dot xs xs" by (simp add: dot_def)
    moreover have "0 \<le> x * x" "0 \<le> dot xs xs" by (simp_all add: dot_self_nonneg)
    ultimately have "x * x = 0" "dot xs xs = 0" using Cons.prems by linarith+
    then show ?case using Cons.IH by simp
  qed
qed

lemma cosineSimilarity_finite:
  assumes "length xs = length ys" "mono rnd" "rnd 0 = 0"
  shows "cosineSimilarity rnd (map Fin xs) (map Fin ys)
       = Inr (Fin (if roundedDenominator rnd xs ys = 0 then 0
                   else max 0 (min 1 (rawCosine rnd xs ys))))"
proof -
  have "\<not> roundedDot rnd xs xs < 0" "\<not> roundedDot rnd ys ys < 0"
    using roundedDot_self_nonneg[OF assms(2,3)] by (simp_all add: not_less)
  then show ?thesis
    using assms(1)
    by (simp add: cosineSimilarity_def cosineLoop_finite roundedDenominator_def
          roundedNorm_def rawCosine_def)
qed

lemma clamp_range:
  "mathMax (Fin 0) (mathMin (Fin 1) q) = NaN \<or>
   (\<exists>x. mathMax (Fin 0) (mathMin (Fin 1) q) = Fin x \<and> 0 \<le> x \<and> x \<le> 1)"
  by (cases q) auto

lemma cosineSimilarity_range:
  assumes "length a = length b"
  shows "\<exists>r. cosineSimilarity rnd a b = Inr r \<and>
              (r = NaN \<or> (\<exists>x. r = Fin x \<and> 0 \<le> x \<and> x \<le> 1))"
  using assms clamp_range
  by (auto simp: cosineSimilarity_def Let_def split: prod.splits)

lemma rounded_sum_exact:
  fixes s :: real
  shows "foldl (\<lambda>s (x, y). s + x * y) s zs = s + sum_list (map (\<lambda>(x, y). x * y) zs)"
  by (induction zs arbitrary: s) (auto simp: algebra_simps)

lemma roundedDot_exact: "roundedDot id a b = dot a b"
  by (simp add: roundedDot_def dot_def rounded_sum_exact)

lemma cosineSimilarity_exact:
  "cosineSimilarity id (map Fin a) (map Fin b)
     = (case cosineSimilarityExact a b of Inl e \<Rightarrow> Inl e | Inr r \<Rightarrow> Inr (Fin r))"
proof (cases "length a = length b")
  case False
  then show ?thesis by (simp add: cosineSimilarity_def cosineSimilarityExact_def)
next
  case True
  have "mono (id :: real \<Rightarrow> real)" by (simp add: mono_def)
  from cosineSimilarity_finite[OF True this] True show ?thesis
    by (simp add: cosineSimilarityExact_def roundedDenominator_def roundedNorm_def
          rawCosine_def roundedDot_exact Let_def)
qed

text \<open>
  C7 (as amended). \<open>cosineSimilarity\<close> fails with the dimension-mismatch error when the
  lengths differ, whatever the components are. For vectors of equal length whose components
  are finite, and an arithmetic whose rounding is monotone and keeps 0, it returns a finite
  number between 0 and 1: 0 when either vector has norm zero, or when the computed
  denominator is 0, and else the raw cosine as computed, \<open>dot / (norm * norm)\<close> with every
  operation rounded, clamped, so that a negative value gives 0 and a value above 1 gives 1.
\<close>

theorem cosineSimilarity_clamped:
  "(length a \<noteq> length b \<longrightarrow> cosineSimilarity rnd a b = Inl DimensionMismatch) \<and>
   (length xs = length ys \<and> mono rnd \<and> rnd 0 = 0 \<longrightarrow>
      (\<exists>r. cosineSimilarity rnd (map Fin xs) (map Fin ys) = Inr (Fin r) \<and> 0 \<le> r \<and> r \<le> 1 \<and>
           (norm2 xs = 0 \<or> norm2 ys = 0 \<longrightarrow> r = 0) \<and>
           (roundedDenominator rnd xs ys = 0 \<longrightarrow> r = 0) \<and>
           (roundedDenominator rnd xs ys \<noteq> 0 \<longrightarrow>
              r = max 0 (min 1 (rawCosine rnd xs ys)) \<and>
              (rawCosine rnd xs ys < 0 \<longrightarrow> r = 0) \<and>
              (rawCosine rnd xs ys > 1 \<longrightarrow> r = 1))))"
proof (intro conjI impI)
  assume "length a \<noteq> length b"
  then show "cosineSimilarity rnd a b = Inl DimensionMismatch"
    by (simp add: cosineSimilarity_def)
next
  assume h: "length xs = length ys \<and> mono rnd \<and> rnd 0 = 0"
  let ?den = "roundedDenominator rnd xs ys"
  let ?raw = "rawCosine rnd xs ys"
  let ?r = "if ?den = 0 then 0 else max 0 (min 1 ?raw)"
  have res: "cosineSimilarity rnd (map Fin xs) (map Fin ys) = Inr (Fin ?r)"
    using h by (simp add: cosineSimilarity_finite)
  have range: "0 \<le> ?r" "?r \<le> 1" by simp_all
  have zero: "?den = 0" if "norm2 xs = 0 \<or> norm2 ys = 0"
  proof -
    from that have "roundedDot rnd xs xs = 0 \<or> roundedDot rnd ys ys = 0"
      using norm2_zero roundedDot_zero h by blast
    then have "roundedNorm rnd xs = 0 \<or> roundedNorm rnd ys = 0"
      using h by (auto simp: roundedNorm_def)
    then show ?thesis using h by (auto simp: roundedDenominator_def)
  qed
  have clamp: "?den \<noteq> 0 \<longrightarrow>
              ?r = max 0 (min 1 ?raw) \<and> (?raw < 0 \<longrightarrow> ?r = 0) \<and> (?raw > 1 \<longrightarrow> ?r = 1)"
    by (auto simp: max_def min_def)
  have "0 \<le> ?r \<and> ?r \<le> 1 \<and> (norm2 xs = 0 \<or> norm2 ys = 0 \<longrightarrow> ?r = 0) \<and>
        (?den = 0 \<longrightarrow> ?r = 0) \<and>
        (?den \<noteq> 0 \<longrightarrow>
           ?r = max 0 (min 1 ?raw) \<and> (?raw < 0 \<longrightarrow> ?r = 0) \<and> (?raw > 1 \<longrightarrow> ?r = 1))"
    using range zero clamp by simp
  then show "\<exists>r. cosineSimilarity rnd (map Fin xs) (map Fin ys) = Inr (Fin r) \<and> 0 \<le> r \<and> r \<le> 1 \<and>
           (norm2 xs = 0 \<or> norm2 ys = 0 \<longrightarrow> r = 0) \<and>
           (?den = 0 \<longrightarrow> r = 0) \<and>
           (?den \<noteq> 0 \<longrightarrow>
              r = max 0 (min 1 ?raw) \<and> (?raw < 0 \<longrightarrow> r = 0) \<and> (?raw > 1 \<longrightarrow> r = 1))"
    using res by blast
qed

lemma roundDown_rounding: "mono roundDown \<and> roundDown 0 = 0"
  by (simp add: mono_def roundDown_def floor_mono)

lemma roundDown_sqrt_2: "roundDown (sqrt 2) = 1"
proof -
  have "1 \<le> sqrt 2" by simp
  moreover have "sqrt 2 < sqrt 4" by (simp only: real_sqrt_less_iff)
  then have "sqrt 2 < 2" by simp
  ultimately have "\<lfloor>sqrt 2\<rfloor> = 1" by (simp add: floor_eq_iff)
  then show ?thesis by (simp add: roundDown_def)
qed

theorem cosineSimilarity_clamped_witness:
  "length [Fin 1] \<noteq> length [Fin 1, NaN] \<and>
   cosineSimilarity roundDown [Fin 1] [Fin 1, NaN] = Inl DimensionMismatch \<and>
   length [1, 1 :: real] = length [1, 1 :: real] \<and> mono roundDown \<and> roundDown 0 = 0 \<and>
   roundedDenominator roundDown [1, 1] [1, 1] \<noteq> 0 \<and> rawCosine roundDown [1, 1] [1, 1] > 1 \<and>
   cosineSimilarity roundDown (map Fin [1, 1]) (map Fin [1, 1]) = Inr (Fin 1) \<and>
   rawCosine roundDown [1, 0] [-1, 0] < 0 \<and>
   cosineSimilarity roundDown (map Fin [1, 0]) (map Fin [-1, 0]) = Inr (Fin 0) \<and>
   norm2 [0, 0] = 0 \<and>
   cosineSimilarity roundDown (map Fin [0, 0]) (map Fin [3, 4]) = Inr (Fin 0)"
proof -
  note rd = roundDown_rounding
  have d: "roundedDot roundDown [1, 1] [1, 1] = 2" "roundedDot roundDown [1, 0] [-1, 0] = -1"
          "roundedDot roundDown [1, 0] [1, 0] = 1" "roundedDot roundDown [-1, 0] [-1, 0] = 1"
    by (simp_all add: roundedDot_def roundDown_def)
  have den: "roundedDenominator roundDown [1, 1] [1, 1] = 1"
            "roundedDenominator roundDown [1, 0] [-1, 0] = 1"
    by (simp_all add: roundedDenominator_def roundedNorm_def d roundDown_sqrt_2)
       (simp_all add: roundDown_def)
  have raw: "rawCosine roundDown [1, 1] [1, 1] = 2" "rawCosine roundDown [1, 0] [-1, 0] = -1"
    by (simp_all add: rawCosine_def d den) (simp_all add: roundDown_def)
  have z: "norm2 [0, 0] = 0" by (simp add: norm2_def dot_def)
  from cosineSimilarity_clamped[of "[Fin 1]" "[Fin 1, NaN]" roundDown]
  have 1: "cosineSimilarity roundDown [Fin 1] [Fin 1, NaN] = Inl DimensionMismatch" by simp
  from cosineSimilarity_clamped[of _ _ roundDown "[1, 1]" "[1, 1]"] rd den(1) raw(1)
  have 2: "cosineSimilarity roundDown (map Fin [1, 1]) (map Fin [1, 1]) = Inr (Fin 1)"
    by auto
  from cosineSimilarity_clamped[of _ _ roundDown "[1, 0]" "[-1, 0]"] rd den(2) raw(2)
  have 3: "cosineSimilarity roundDown (map Fin [1, 0]) (map Fin [-1, 0]) = Inr (Fin 0)"
    by auto
  from cosineSimilarity_clamped[of _ _ roundDown "[0, 0]" "[3, 4]"] rd z
  have 4: "cosineSimilarity roundDown (map Fin [0, 0]) (map Fin [3, 4]) = Inr (Fin 0)"
    by auto
  show ?thesis using 1 2 3 4 rd den raw z by simp
qed

theorem cosineSimilarity_clamped_counterexample:
  "length [PosInf, Fin 0] = length [Fin 1, Fin 0] \<and>
   cosineSimilarity id [PosInf, Fin 0] [Fin 1, Fin 0] = Inr NaN"
  by (simp add: cosineSimilarity_def cosineLoop_def infinityOfSign_def)

subsection \<open>Provider status\<close>

text \<open>
  C10. A provider on which \<open>initialize\<close> was never called (no model, no load in flight, no
  recorded error) reports the status \<open>Loading\<close>, the same status as a provider whose load is
  in flight.
\<close>

theorem getStatus_uninitialized:
  "newEmbeddingModel = \<lparr>model = None, isLoading = False, loadError = None\<rparr> \<and>
   getStatus newEmbeddingModel = Loading \<and>
   getStatus (newEmbeddingModel\<lparr>isLoading := True\<rparr>) = Loading"
  by (simp add: getStatus_def newEmbeddingModel_def)



subsection \<open>The keyword cache\<close>

lemma cacheLookup_Undefined:
  "(cacheLookup cache k = Undefined) = (cache k = None \<and> k \<notin> set objectPrototypeNames)"
  by (simp add: cacheLookup_def split: option.splits)

lemma cacheLookup_Inherited:
  "(cacheLookup cache k = Inherited) = (cache k = None \<and> k \<in> set objectPrototypeNames)"
  by (simp add: cacheLookup_def split: option.splits)

lemma cacheKeyword_frame:
  assumes "cacheKeyword g keyword = (r, g')"
  shows "mlModelStatus g' = mlModelStatus g \<and> mlModelError g' = mlModelError g \<and>
         embeddingModel g' = embeddingModel g"
  using assms by (auto simp: cacheKeyword_def Let_def split: if_splits sum.splits)

lemma cacheKeyword_cache:
  assumes "cacheKeyword g keyword = (r, g')"
  shows "keywordEmbeddingCache g' =
           (if cacheLookup (keywordEmbeddingCache g) keyword = Undefined then
              (case computeEmbedding (embeddingModel g) keyword of
                 Inl e \<Rightarrow> keywordEmbeddingCache g
               | Inr v \<Rightarrow> (keywordEmbeddingCache g)(keyword \<mapsto> v))
            else keywordEmbeddingCache g)"
  using assms by (auto simp: cacheKeyword_def Let_def split: if_splits sum.splits)

lemma cacheKeyword_calls:
  assumes "cacheKeyword g keyword = (r, g')"
  shows "embedCalls g' =
           embedCalls g @
             (if cacheLookup (keywordEmbeddingCache g) keyword = Undefined then [keyword] else [])"
  using assms by (auto simp: cacheKeyword_def Let_def split: if_splits sum.splits)

lemma cacheKeyword_at:
  assumes "cacheKeyword g keyword = (r, g')" "k \<noteq> keyword"
  shows "keywordEmbeddingCache g' k = keywordEmbeddingCache g k"
  using cacheKeyword_cache[OF assms(1)] assms(2) by (auto split: sum.splits)

lemma cacheKeyword_keeps:
  assumes "cacheKeyword g keyword = (r, g')" "cacheLookup (keywordEmbeddingCache g) k \<noteq> Undefined"
  shows "keywordEmbeddingCache g' k = keywordEmbeddingCache g k"
  using cacheKeyword_cache[OF assms(1)] assms(2) by (auto split: sum.splits)

lemma precomputeLoop_step:
  "precomputeLoop g (keyword # kws) = precomputeLoop (snd (cacheKeyword g keyword)) kws"
  by (cases "cacheKeyword g keyword") (auto split: option.splits)

lemma precomputeLoop_no_exception: "fst (precomputeLoop g kws) = None"
  by (induction kws arbitrary: g) (simp_all add: precomputeLoop_step del: precomputeLoop.simps(2))

lemma precomputeLoop_frame:
  "mlModelStatus (snd (precomputeLoop g kws)) = mlModelStatus g \<and>
   mlModelError (snd (precomputeLoop g kws)) = mlModelError g \<and>
   embeddingModel (snd (precomputeLoop g kws)) = embeddingModel g"
proof (induction kws arbitrary: g)
  case Nil
  then show ?case by simp
next
  case (Cons keyword kws)
  obtain r g1 where c: "cacheKeyword g keyword = (r, g1)" by (cases "cacheKeyword g keyword")
  from Cons[of g1] cacheKeyword_frame[OF c] c show ?case
    by (simp add: precomputeLoop_step del: precomputeLoop.simps(2))
qed

lemma precomputeLoop_keeps:
  assumes "cacheLookup (keywordEmbeddingCache g) k \<noteq> Undefined"
  shows "keywordEmbeddingCache (snd (precomputeLoop g kws)) k = keywordEmbeddingCache g k"
  using assms
proof (induction kws arbitrary: g)
  case Nil
  then show ?case by simp
next
  case (Cons keyword kws)
  obtain r g1 where c: "cacheKeyword g keyword = (r, g1)" by (cases "cacheKeyword g keyword")
  have same: "keywordEmbeddingCache g1 k = keywordEmbeddingCache g k"
    using cacheKeyword_keeps[OF c Cons.prems] .
  then have "cacheLookup (keywordEmbeddingCache g1) k \<noteq> Undefined"
    using Cons.prems by (simp add: cacheLookup_def)
  from Cons.IH[OF this] same c show ?case
    by (simp add: precomputeLoop_step del: precomputeLoop.simps(2))
qed

lemma precomputeLoop_calls:
  "\<exists>calls. embedCalls (snd (precomputeLoop g kws)) = embedCalls g @ calls \<and>
           set calls \<subseteq> set kws \<and>
           (\<forall>k \<in> set calls. cacheLookup (keywordEmbeddingCache g) k = Undefined)"
proof (induction kws arbitrary: g)
  case Nil
  then show ?case by simp
next
  case (Cons keyword kws)
  obtain r g1 where c: "cacheKeyword g keyword = (r, g1)" by (cases "cacheKeyword g keyword")
  from Cons[of g1] obtain calls where calls:
    "embedCalls (snd (precomputeLoop g1 kws)) = embedCalls g1 @ calls"
    "set calls \<subseteq> set kws"
    "\<forall>k \<in> set calls. cacheLookup (keywordEmbeddingCache g1) k = Undefined"
    by blast
  have before: "cacheLookup (keywordEmbeddingCache g) k = Undefined"
    if "cacheLookup (keywordEmbeddingCache g1) k = Undefined" for k
  proof (rule ccontr)
    assume n: "cacheLookup (keywordEmbeddingCache g) k \<noteq> Undefined"
    from cacheKeyword_keeps[OF c n] that n show False by (simp add: cacheLookup_def)
  qed
  let ?first = "if cacheLookup (keywordEmbeddingCache g) keyword = Undefined then [keyword] else []"
  have "embedCalls (snd (precomputeLoop g (keyword # kws))) = embedCalls g @ (?first @ calls)"
    using calls(1) cacheKeyword_calls[OF c] c
    by (simp add: precomputeLoop_step del: precomputeLoop.simps(2))
  moreover have "set (?first @ calls) \<subseteq> set (keyword # kws)" using calls(2) by auto
  moreover have "\<forall>k \<in> set (?first @ calls). cacheLookup (keywordEmbeddingCache g) k = Undefined"
    using calls(3) before by auto
  ultimately show ?case by blast
qed

lemma precomputeLoop_other:
  assumes "k \<notin> set kws"
  shows "keywordEmbeddingCache (snd (precomputeLoop g kws)) k = keywordEmbeddingCache g k"
  using assms
proof (induction kws arbitrary: g)
  case Nil
  then show ?case by simp
next
  case (Cons keyword kws)
  obtain r g1 where c: "cacheKeyword g keyword = (r, g1)" by (cases "cacheKeyword g keyword")
  have "keywordEmbeddingCache g1 k = keywordEmbeddingCache g k"
    using cacheKeyword_at[OF c] Cons.prems by simp
  moreover have "keywordEmbeddingCache (snd (precomputeLoop g1 kws)) k = keywordEmbeddingCache g1 k"
    using Cons by simp
  ultimately show ?case using c
    by (simp add: precomputeLoop_step del: precomputeLoop.simps(2))
qed

lemma precomputeLoop_no_model:
  assumes "model (embeddingModel g) = None"
  shows "keywordEmbeddingCache (snd (precomputeLoop g kws)) = keywordEmbeddingCache g"
  using assms
proof (induction kws arbitrary: g)
  case Nil
  then show ?case by simp
next
  case (Cons keyword kws)
  obtain r g1 where c: "cacheKeyword g keyword = (r, g1)" by (cases "cacheKeyword g keyword")
  have "keywordEmbeddingCache g1 = keywordEmbeddingCache g"
    using cacheKeyword_cache[OF c] Cons.prems by (simp add: computeEmbedding_def)
  moreover have "model (embeddingModel g1) = None"
    using cacheKeyword_frame[OF c] Cons.prems by simp
  ultimately show ?case using Cons.IH[of g1] c
    by (simp add: precomputeLoop_step del: precomputeLoop.simps(2))
qed

lemma precomputeLoop_fills:
  assumes "keyword \<in> set kws" "cacheLookup (keywordEmbeddingCache g) keyword = Undefined"
  shows "keywordEmbeddingCache (snd (precomputeLoop g kws)) keyword =
           (case computeEmbedding (embeddingModel g) keyword of
              Inl e \<Rightarrow> None
            | Inr v \<Rightarrow> Some v)"
  using assms
proof (induction kws arbitrary: g)
  case Nil
  then show ?case by simp
next
  case (Cons k kws)
  obtain r g1 where c: "cacheKeyword g k = (r, g1)" by (cases "cacheKeyword g k")
  have step: "snd (precomputeLoop g (k # kws)) = snd (precomputeLoop g1 kws)"
    using c by (simp add: precomputeLoop_step del: precomputeLoop.simps(2))
  have model: "embeddingModel g1 = embeddingModel g" using cacheKeyword_frame[OF c] by simp
  have none: "keywordEmbeddingCache g keyword = None" "keyword \<notin> set objectPrototypeNames"
    using Cons.prems(2) by (simp_all add: cacheLookup_Undefined)
  show ?case
  proof (cases "keywordEmbeddingCache g1 keyword")
    case (Some v)
    then have kv: "k = keyword" "computeEmbedding (embeddingModel g) keyword = Inr v"
      using cacheKeyword_cache[OF c] none(1) by (auto split: sum.splits if_splits)
    have "cacheLookup (keywordEmbeddingCache g1) keyword \<noteq> Undefined"
      using Some by (simp add: cacheLookup_def)
    from precomputeLoop_keeps[OF this, of kws] kv Some step show ?thesis by simp
  next
    case None
    then have undef: "cacheLookup (keywordEmbeddingCache g1) keyword = Undefined"
      using none(2) by (simp add: cacheLookup_Undefined)
    show ?thesis
    proof (cases "keyword \<in> set kws")
      case True
      from Cons.IH[OF True undef] step model show ?thesis by simp
    next
      case False
      then have k: "k = keyword" using Cons.prems(1) by simp
      then have fail: "\<exists>e. computeEmbedding (embeddingModel g) keyword = Inl e"
        using cacheKeyword_cache[OF c] Cons.prems(2) None by (auto split: sum.splits if_splits)
      have "keywordEmbeddingCache (snd (precomputeLoop g1 kws)) keyword = None"
        using precomputeLoop_other[OF False, of g1] None by simp
      then show ?thesis using fail step by auto
    qed
  qed
qed

text \<open>
  C9. \<open>precomputeKeywordEmbeddings\<close> never raises. Every keyword that is in the cache keeps
  its vector, and no keyword whose lookup in the cache finds something is handed to
  \<open>computeEmbedding\<close>, so a second call, with any keyword list, leaves the entries of the first
  call as they are. When the status is not \<open>Ready\<close> the call changes nothing, and when the
  provider holds no model the cache stays as it is. When the status is \<open>Ready\<close>, each listed
  keyword whose lookup finds nothing is cached with its embedding if the embedding can be
  computed and is left out if the computation raises, whatever happens to the other keywords
  of the list. A keyword for which the lookup finds an inherited property is never cached.
\<close>

theorem precomputeKeywordEmbeddings_write_once:
  "fst (precomputeKeywordEmbeddings g kws) = None \<and>
   (\<forall>k v. keywordEmbeddingCache g k = Some v \<longrightarrow>
      keywordEmbeddingCache (snd (precomputeKeywordEmbeddings g kws)) k = Some v) \<and>
   (\<exists>calls. embedCalls (snd (precomputeKeywordEmbeddings g kws)) = embedCalls g @ calls \<and>
      set calls \<subseteq> set kws \<and>
      (\<forall>k \<in> set calls. cacheLookup (keywordEmbeddingCache g) k = Undefined)) \<and>
   (\<forall>k v. keywordEmbeddingCache (snd (precomputeKeywordEmbeddings g kws)) k = Some v \<longrightarrow>
      keywordEmbeddingCache
        (snd (precomputeKeywordEmbeddings (snd (precomputeKeywordEmbeddings g kws)) kws')) k = Some v) \<and>
   (mlModelStatus g \<noteq> Some Ready \<longrightarrow> snd (precomputeKeywordEmbeddings g kws) = g) \<and>
   (model (embeddingModel g) = None \<longrightarrow>
      keywordEmbeddingCache (snd (precomputeKeywordEmbeddings g kws)) = keywordEmbeddingCache g) \<and>
   (mlModelStatus g = Some Ready \<longrightarrow>
      (\<forall>k \<in> set kws. cacheLookup (keywordEmbeddingCache g) k = Undefined \<longrightarrow>
         keywordEmbeddingCache (snd (precomputeKeywordEmbeddings g kws)) k =
           (case computeEmbedding (embeddingModel g) k of
              Inl e \<Rightarrow> None
            | Inr v \<Rightarrow> Some v))) \<and>
   (\<forall>k. cacheLookup (keywordEmbeddingCache g) k = Inherited \<longrightarrow>
      keywordEmbeddingCache (snd (precomputeKeywordEmbeddings g kws)) k = None)"
proof -
  have keeps: "keywordEmbeddingCache (snd (precomputeKeywordEmbeddings g0 l)) k = Some v"
    if "keywordEmbeddingCache g0 k = Some v" for g0 l k v
  proof -
    have "cacheLookup (keywordEmbeddingCache g0) k \<noteq> Undefined"
      using that by (simp add: cacheLookup_def)
    from precomputeLoop_keeps[OF this, of l] that show ?thesis
      by (simp add: precomputeKeywordEmbeddings_def)
  qed
  have 1: "fst (precomputeKeywordEmbeddings g kws) = None"
    by (simp add: precomputeKeywordEmbeddings_def precomputeLoop_no_exception)
  have 3: "\<exists>calls. embedCalls (snd (precomputeKeywordEmbeddings g kws)) = embedCalls g @ calls \<and>
      set calls \<subseteq> set kws \<and>
      (\<forall>k \<in> set calls. cacheLookup (keywordEmbeddingCache g) k = Undefined)"
    using precomputeLoop_calls[of g kws] by (simp add: precomputeKeywordEmbeddings_def)
  have 5: "mlModelStatus g \<noteq> Some Ready \<longrightarrow> snd (precomputeKeywordEmbeddings g kws) = g"
    by (simp add: precomputeKeywordEmbeddings_def)
  have 6: "mlModelStatus g = Some Ready \<longrightarrow>
      (\<forall>k \<in> set kws. cacheLookup (keywordEmbeddingCache g) k = Undefined \<longrightarrow>
         keywordEmbeddingCache (snd (precomputeKeywordEmbeddings g kws)) k =
           (case computeEmbedding (embeddingModel g) k of
              Inl e \<Rightarrow> None
            | Inr v \<Rightarrow> Some v))"
    by (simp add: precomputeKeywordEmbeddings_def precomputeLoop_fills)
  have 7: "model (embeddingModel g) = None \<longrightarrow>
      keywordEmbeddingCache (snd (precomputeKeywordEmbeddings g kws)) = keywordEmbeddingCache g"
    by (simp add: precomputeKeywordEmbeddings_def precomputeLoop_no_model)
  have 8: "keywordEmbeddingCache (snd (precomputeKeywordEmbeddings g kws)) k = None"
    if "cacheLookup (keywordEmbeddingCache g) k = Inherited" for k
  proof -
    have "cacheLookup (keywordEmbeddingCache g) k \<noteq> Undefined" using that by simp
    from precomputeLoop_keeps[OF this, of kws] that show ?thesis
      by (simp add: precomputeKeywordEmbeddings_def cacheLookup_Inherited)
  qed
  show ?thesis using keeps 1 3 5 6 7 8 by blast
qed

theorem precomputeKeywordEmbeddings_write_once_witness:
  "keywordEmbeddingCache demoGlobals ''gaming'' = Some [1, 0] \<and>
   keywordEmbeddingCache
     (snd (precomputeKeywordEmbeddings demoGlobals
             [''gaming'', ''boom'', ''work'', ''constructor''])) ''gaming''
     = Some [1, 0] \<and>
   mlModelStatus demoGlobals = Some Ready \<and>
   ''boom'' \<in> set [''gaming'', ''boom'', ''work'', ''constructor''] \<and>
   cacheLookup (keywordEmbeddingCache demoGlobals) ''boom'' = Undefined \<and>
   keywordEmbeddingCache
     (snd (precomputeKeywordEmbeddings demoGlobals
             [''gaming'', ''boom'', ''work'', ''constructor''])) ''boom''
     = None \<and>
   ''work'' \<in> set [''gaming'', ''boom'', ''work'', ''constructor''] \<and>
   cacheLookup (keywordEmbeddingCache demoGlobals) ''work'' = Undefined \<and>
   keywordEmbeddingCache
     (snd (precomputeKeywordEmbeddings demoGlobals
             [''gaming'', ''boom'', ''work'', ''constructor''])) ''work''
     = Some [0, 1] \<and>
   cacheLookup (keywordEmbeddingCache demoGlobals) ''constructor'' = Inherited \<and>
   computeEmbedding (embeddingModel demoGlobals) ''constructor'' = Inr [0, 1] \<and>
   keywordEmbeddingCache
     (snd (precomputeKeywordEmbeddings demoGlobals
             [''gaming'', ''boom'', ''work'', ''constructor''])) ''constructor''
     = None \<and>
   mlModelStatus (demoGlobals\<lparr>mlModelStatus := Some Loading\<rparr>) \<noteq> Some Ready \<and>
   snd (precomputeKeywordEmbeddings (demoGlobals\<lparr>mlModelStatus := Some Loading\<rparr>) [''work''])
     = demoGlobals\<lparr>mlModelStatus := Some Loading\<rparr>"
proof -
  let ?kws = "[''gaming'', ''boom'', ''work'', ''constructor'']"
  have c: "keywordEmbeddingCache demoGlobals ''gaming'' = Some [1, 0]"
          "cacheLookup (keywordEmbeddingCache demoGlobals) ''boom'' = Undefined"
          "cacheLookup (keywordEmbeddingCache demoGlobals) ''work'' = Undefined"
          "mlModelStatus demoGlobals = Some Ready"
          "cacheLookup (keywordEmbeddingCache demoGlobals) ''constructor'' = Inherited"
    by (simp_all add: demoGlobals_def cacheLookup_def objectPrototypeNames_def)
  have e: "computeEmbedding (embeddingModel demoGlobals) ''boom'' = Inl (BackendError ''bad input'')"
          "computeEmbedding (embeddingModel demoGlobals) ''work'' = Inr [0, 1]"
          "computeEmbedding (embeddingModel demoGlobals) ''constructor'' = Inr [0, 1]"
    by (simp_all add: demoGlobals_def computeEmbedding_def demoBackend_def trim_def isSpace_def)
  note t = precomputeKeywordEmbeddings_write_once[of demoGlobals ?kws "[]"]
  have 1: "keywordEmbeddingCache (snd (precomputeKeywordEmbeddings demoGlobals ?kws)) ''gaming''
             = Some [1, 0]"
    using t c(1) by blast
  have 2: "keywordEmbeddingCache (snd (precomputeKeywordEmbeddings demoGlobals ?kws)) ''boom'' = None"
    using t c(2,4) e(1) by simp
  have 3: "keywordEmbeddingCache (snd (precomputeKeywordEmbeddings demoGlobals ?kws)) ''work''
             = Some [0, 1]"
    using t c(3,4) e(2) by simp
  have 4: "snd (precomputeKeywordEmbeddings (demoGlobals\<lparr>mlModelStatus := Some Loading\<rparr>) [''work''])
             = demoGlobals\<lparr>mlModelStatus := Some Loading\<rparr>"
    using precomputeKeywordEmbeddings_write_once
            [of "demoGlobals\<lparr>mlModelStatus := Some Loading\<rparr>" "[''work'']" "[]"]
    by simp
  have 5: "keywordEmbeddingCache (snd (precomputeKeywordEmbeddings demoGlobals ?kws)) ''constructor''
             = None"
    using t c(5) by blast
  show ?thesis using c e(3) 1 2 3 4 5 by simp
qed

subsection \<open>The loop over the windows\<close>

lemma processWindows_step:
  assumes "processWindows this cache T bk ak (w # ws) st0 = (raised, st)"
  shows "(raised \<noteq> None \<and> blockedSimilarities st = blockedSimilarities st0 \<and>
          allowedSimilarities st = allowedSimilarities st0 \<and>
          embedded st = embedded st0 @ [wtext w])
       \<or> (\<exists>b. raised \<noteq> None \<and> blockedSimilarities st = blockedSimilarities st0 @ [b] \<and>
          allowedSimilarities st = allowedSimilarities st0 \<and>
          embedded st = embedded st0 @ [wtext w])
       \<or> (\<exists>b a. raised = None \<and> b > 0.85 \<and>
          int (Suc (length (blockedSimilarities st0))) \<ge> \<lceil>real T * 0.5\<rceil> \<and>
          blockedSimilarities st = blockedSimilarities st0 @ [b] \<and>
          allowedSimilarities st = allowedSimilarities st0 @ [a] \<and>
          embedded st = embedded st0 @ [wtext w])
       \<or> (\<exists>b a st3. \<not> (b > 0.85 \<and>
            int (Suc (length (blockedSimilarities st0))) \<ge> \<lceil>real T * 0.5\<rceil>) \<and>
          blockedSimilarities st3 = blockedSimilarities st0 @ [b] \<and>
          allowedSimilarities st3 = allowedSimilarities st0 @ [a] \<and>
          embedded st3 = embedded st0 @ [wtext w] \<and>
          processWindows this cache T bk ak ws st3 = (raised, st))"
proof -
  let ?st1 = "st0\<lparr>embedded := embedded st0 @ [wtext w]\<rparr>"
  show ?thesis
  proof (cases "computeEmbedding this (wtext w)")
    case (Inl e)
    then have "raised = Some e" "st = ?st1" using assms by (simp_all add: Let_def)
    then show ?thesis by simp
  next
    case (Inr page)
    show ?thesis
    proof (cases "maxSimilarity cache page bk 0")
      case (Inl e)
      then have "raised = Some e" "st = ?st1" using assms Inr by (simp_all add: Let_def)
      then show ?thesis by simp
    next
      case mb: (Inr maxBlockedSim)
      let ?st2 = "?st1\<lparr>blockedSimilarities := blockedSimilarities ?st1 @ [maxBlockedSim]\<rparr>"
      show ?thesis
      proof (cases "maxSimilarity cache page ak 0")
        case (Inl e)
        then have "raised = Some e" "st = ?st2" using assms Inr mb by (simp_all add: Let_def)
        then show ?thesis by simp
      next
        case ma: (Inr maxAllowedSim)
        let ?st3 = "?st2\<lparr>allowedSimilarities := allowedSimilarities ?st2 @ [maxAllowedSim]\<rparr>"
        let ?exit = "maxBlockedSim > 0.85 \<and>
                     int (Suc (length (blockedSimilarities st0))) \<ge> \<lceil>real T * 0.5\<rceil>"
        have unfold: "processWindows this cache T bk ak (w # ws) st0 =
                (if ?exit then (None, ?st3) else processWindows this cache T bk ak ws ?st3)"
          using Inr mb ma by (simp add: Let_def)
        show ?thesis
        proof (cases ?exit)
          case True
          have "processWindows this cache T bk ak (w # ws) st0 = (None, ?st3)"
            by (subst unfold) (rule if_P[OF True])
          then have "raised = None" "st = ?st3" using assms by simp_all
          then have "raised = None \<and> maxBlockedSim > 0.85 \<and>
              int (Suc (length (blockedSimilarities st0))) \<ge> \<lceil>real T * 0.5\<rceil> \<and>
              blockedSimilarities st = blockedSimilarities st0 @ [maxBlockedSim] \<and>
              allowedSimilarities st = allowedSimilarities st0 @ [maxAllowedSim] \<and>
              embedded st = embedded st0 @ [wtext w]"
            using True by simp
          then show ?thesis by blast
        next
          case False
          have "processWindows this cache T bk ak (w # ws) st0 =
                  processWindows this cache T bk ak ws ?st3"
            by (subst unfold) (rule if_not_P[OF False])
          then have "processWindows this cache T bk ak ws ?st3 = (raised, st)"
            using assms by simp
          then have "\<not> ?exit \<and>
              blockedSimilarities ?st3 = blockedSimilarities st0 @ [maxBlockedSim] \<and>
              allowedSimilarities ?st3 = allowedSimilarities st0 @ [maxAllowedSim] \<and>
              embedded ?st3 = embedded st0 @ [wtext w] \<and>
              processWindows this cache T bk ak ws ?st3 = (raised, st)"
            using False by simp
          then show ?thesis by blast
        qed
      qed
    qed
  qed
qed

lemma processWindows_extends:
  assumes "processWindows this cache T bk ak ws st0 = (raised, st)"
  shows "\<exists>bs. blockedSimilarities st = blockedSimilarities st0 @ bs"
  using assms
proof (induction ws arbitrary: st0)
  case Nil
  then show ?case by simp
next
  case (Cons w ws)
  from processWindows_step[OF Cons.prems]
  consider "blockedSimilarities st = blockedSimilarities st0"
    | b where "blockedSimilarities st = blockedSimilarities st0 @ [b]"
    | b st3 where "blockedSimilarities st3 = blockedSimilarities st0 @ [b]"
        "processWindows this cache T bk ak ws st3 = (raised, st)"
    by blast
  then show ?case
  proof cases
    case 1
    then show ?thesis by simp
  next
    case 2
    then show ?thesis by simp
  next
    case 3
    from Cons.IH[OF 3(2)] 3(1) show ?thesis by auto
  qed
qed

lemma processWindows_exit:
  assumes "processWindows this cache T bk ak ws st0 = (raised, st)"
    and "length (blockedSimilarities st0) = n0" "length (allowedSimilarities st0) = n0"
    and "n0 < k" "k \<le> length (blockedSimilarities st)"
    and "blockedSimilarities st ! (k - 1) > 0.85"
    and "int k \<ge> \<lceil>real T * 0.5\<rceil>"
  shows "embedded st = embedded st0 @ map wtext (take (k - n0) ws) \<and>
         length (blockedSimilarities st) = k \<and>
         (raised = None \<longrightarrow> length (allowedSimilarities st) = k) \<and>
         (raised \<noteq> None \<longrightarrow> length (allowedSimilarities st) = k - 1)"
  using assms
proof (induction ws arbitrary: st0 n0)
  case Nil
  then show ?case by simp
next
  case (Cons w ws)
  from processWindows_step[OF Cons.prems(1)]
  consider
      (raise) "blockedSimilarities st = blockedSimilarities st0"
    | (raise_allowed) b where "raised \<noteq> None"
        "blockedSimilarities st = blockedSimilarities st0 @ [b]"
        "allowedSimilarities st = allowedSimilarities st0"
        "embedded st = embedded st0 @ [wtext w]"
    | (exit) b a where "raised = None"
        "blockedSimilarities st = blockedSimilarities st0 @ [b]"
        "allowedSimilarities st = allowedSimilarities st0 @ [a]"
        "embedded st = embedded st0 @ [wtext w]"
    | (continue) b a st3 where
        "\<not> (b > 0.85 \<and> int (Suc (length (blockedSimilarities st0))) \<ge> \<lceil>real T * 0.5\<rceil>)"
        "blockedSimilarities st3 = blockedSimilarities st0 @ [b]"
        "allowedSimilarities st3 = allowedSimilarities st0 @ [a]"
        "embedded st3 = embedded st0 @ [wtext w]"
        "processWindows this cache T bk ak ws st3 = (raised, st)"
    by blast
  then show ?case
  proof cases
    case raise
    then show ?thesis using Cons.prems(2,4,5) by simp
  next
    case raise_allowed
    then have "k = Suc n0" using Cons.prems(2,4,5) by simp
    then show ?thesis using raise_allowed Cons.prems(2,3) by simp
  next
    case exit
    then have "k = Suc n0" using Cons.prems(2,4,5) by simp
    then show ?thesis using exit Cons.prems(2,3) by simp
  next
    case continue
    have l3: "length (blockedSimilarities st3) = Suc n0"
             "length (allowedSimilarities st3) = Suc n0"
      using continue(2,3) Cons.prems(2,3) by simp_all
    have "k \<noteq> Suc n0"
    proof
      assume k: "k = Suc n0"
      from processWindows_extends[OF continue(5)] obtain bs where
        "blockedSimilarities st = blockedSimilarities st3 @ bs" by blast
      then have "blockedSimilarities st ! (k - 1) = b"
        using k Cons.prems(2) continue(2) by (simp add: nth_append)
      then show False using continue(1) Cons.prems(2,6,7) k by simp
    qed
    then have lt: "Suc n0 < k" using Cons.prems(4) by simp
    from Cons.IH[OF continue(5) l3 lt Cons.prems(5,6,7)]
    have "embedded st = embedded st3 @ map wtext (take (k - Suc n0) ws) \<and>
          length (blockedSimilarities st) = k \<and>
          (raised = None \<longrightarrow> length (allowedSimilarities st) = k) \<and>
          (raised \<noteq> None \<longrightarrow> length (allowedSimilarities st) = k - 1)" .
    moreover have "take (k - n0) (w # ws) = w # take (k - Suc n0) ws"
      using lt by (simp add: take_Cons')
    ultimately show ?thesis using continue(4) by simp
  qed
qed

text \<open>
  C6. Let the loop over the windows be run from empty score lists. If the window at position
  \<open>k\<close> (counted from 1) got a blocked score in the loop, this score exceeds 0.85 and
  \<open>k \<ge> ceil (windows.length * 0.5)\<close>, then no later window is processed: the texts handed to
  \<open>computeEmbedding\<close> are exactly those of the first \<open>k\<close> windows. If the loop ends without an
  exception, which is the case exactly when the allowed score of window \<open>k\<close> could be computed
  as well, both score lists, which then go on to pooling, have exactly \<open>k\<close> entries.
\<close>

theorem processWindows_early_exit:
  assumes "processWindows this cache (length windows) blockedKeywords allowedKeywords windows
             \<lparr>blockedSimilarities = [], allowedSimilarities = [], embedded = []\<rparr> = (raised, st)"
    and "1 \<le> k" "k \<le> length (blockedSimilarities st)"
    and "blockedSimilarities st ! (k - 1) > 0.85"
    and "int k \<ge> \<lceil>real (length windows) * 0.5\<rceil>"
  shows "embedded st = map wtext (take k windows) \<and>
         length (blockedSimilarities st) = k \<and>
         (raised = None \<longrightarrow> length (allowedSimilarities st) = k) \<and>
         (raised = None) = (k \<le> length (allowedSimilarities st))"
proof -
  from processWindows_exit[OF assms(1), of 0 k] assms(2-)
  have r: "embedded st = map wtext (take k windows) \<and>
           length (blockedSimilarities st) = k \<and>
           (raised = None \<longrightarrow> length (allowedSimilarities st) = k) \<and>
           (raised \<noteq> None \<longrightarrow> length (allowedSimilarities st) = k - 1)"
    by simp
  then have "(raised = None) = (k \<le> length (allowedSimilarities st))"
    using assms(2) by (cases "raised = None") auto
  then show ?thesis using r by blast
qed

theorem processWindows_early_exit_witness:
  "processWindows (embeddingModel demoGlobals) (keywordEmbeddingCache demoGlobals)
     (length demoWindows) [''gaming''] [''work'', ''study''] demoWindows
     \<lparr>blockedSimilarities = [], allowedSimilarities = [], embedded = []\<rparr>
     = (None, \<lparr>blockedSimilarities = [1, 1], allowedSimilarities = [0, 0],
               embedded = [''play one'', ''play two'']\<rparr>) \<and>
   (1::nat) \<le> 2 \<and> 2 \<le> length [1, 1 :: real] \<and> [1, 1 :: real] ! (2 - 1) > 0.85 \<and>
   int 2 \<ge> \<lceil>real (length demoWindows) * 0.5\<rceil> \<and>
   map wtext (take 2 demoWindows) = [''play one'', ''play two'']"
proof -
  let ?st = "\<lparr>blockedSimilarities = [1, 1], allowedSimilarities = [0, 0 :: real],
               embedded = [''play one'', ''play two'']\<rparr>"
  have e: "computeEmbedding (embeddingModel demoGlobals) ''play one'' = Inr [1, 0]"
          "computeEmbedding (embeddingModel demoGlobals) ''play two'' = Inr [1, 0]"
    by (simp_all add: demoGlobals_def computeEmbedding_def demoBackend_def trim_def isSpace_def)
  have c: "cosineSimilarityExact [1, 0] [1, 0] = Inr 1"
          "cosineSimilarityExact [1, 0] [0, 1] = Inr 0"
    by (simp_all add: cosineSimilarityExact_def dot_def)
  have k: "cacheLookup (keywordEmbeddingCache demoGlobals) ''gaming'' = Embedding [1, 0]"
          "cacheLookup (keywordEmbeddingCache demoGlobals) ''work'' = Undefined"
          "cacheLookup (keywordEmbeddingCache demoGlobals) ''study'' = Embedding [0, 1]"
    by (simp_all add: demoGlobals_def cacheLookup_def objectPrototypeNames_def)
  have r: "processWindows (embeddingModel demoGlobals) (keywordEmbeddingCache demoGlobals)
             (length demoWindows) [''gaming''] [''work'', ''study''] demoWindows
             \<lparr>blockedSimilarities = [], allowedSimilarities = [], embedded = []\<rparr> = (None, ?st)"
    by (simp add: demoWindows_def e c k Let_def)
  have t: "map wtext (take 2 demoWindows) = [''play one'', ''play two'']"
    by (simp add: demoWindows_def)
  have l: "int 2 \<ge> \<lceil>real (length demoWindows) * 0.5\<rceil>" by (simp add: demoWindows_def)
  from processWindows_early_exit[OF r, of 2] l
  show ?thesis using r t by simp
qed


subsection \<open>The whole pipeline\<close>

lemma waitWhileIsLoading_ends:
  assumes "\<not> isLoading (polls n)" "k \<le> n"
  shows "\<exists>this'. waitWhileIsLoading polls k = Some this' \<and> \<not> isLoading this'"
  using assms
proof (induction "n - k" arbitrary: k)
  case 0
  then have "k = n" by simp
  then show ?case using "0.prems"(1) by (subst waitWhileIsLoading.simps) simp
next
  case (Suc d)
  show ?case
  proof (cases "isLoading (polls k)")
    case True
    have "d = n - Suc k" "Suc k \<le> n" using Suc.hyps(2) by simp_all
    from Suc.hyps(1)[OF this(1) Suc.prems(1) this(2)] True show ?thesis
      by (subst waitWhileIsLoading.simps) simp
  next
    case False
    then show ?thesis by (subst waitWhileIsLoading.simps) simp
  qed
qed

lemma waitWhileStatusLoading_ends:
  assumes "mlModelStatus (polls n) \<noteq> Some Loading" "k \<le> n"
  shows "\<exists>g'. waitWhileStatusLoading polls k = Some g' \<and> mlModelStatus g' \<noteq> Some Loading"
  using assms
proof (induction "n - k" arbitrary: k)
  case 0
  then have "k = n" by simp
  then show ?case using "0.prems"(1) by (subst waitWhileStatusLoading.simps) simp
next
  case (Suc d)
  show ?case
  proof (cases "mlModelStatus (polls k) = Some Loading")
    case True
    have "d = n - Suc k" "Suc k \<le> n" using Suc.hyps(2) by simp_all
    from Suc.hyps(1)[OF this(1) Suc.prems(1) this(2)] True show ?thesis
      by (subst waitWhileStatusLoading.simps) simp
  next
    case False
    then show ?thesis by (subst waitWhileStatusLoading.simps) simp
  qed
qed

lemma initialize_returns:
  assumes "model this = None \<and> isLoading this \<longrightarrow> (\<exists>n. \<not> isLoading (polls n))"
  shows "\<exists>r this'. initialize load polls this = Some (r, this')"
proof (cases "model this = None \<and> isLoading this")
  case True
  then obtain n where "\<not> isLoading (polls n)" using assms by blast
  from waitWhileIsLoading_ends[of polls n 0, OF this] True show ?thesis
    by (auto simp: initialize_def)
next
  case False
  then show ?thesis
    by (auto simp: initialize_def Let_def split: sum.splits)
qed

lemma initialize_load_fails:
  assumes "model this = None" "\<not> isLoading this" "load = Inl e"
  shows "initialize load polls this =
           Some (Some e, this\<lparr>isLoading := False, loadError := Some (errorMessage e)\<rparr>)"
  using assms by (simp add: initialize_def Let_def)

lemma initializeMLModel_catches:
  assumes "initializeMLModel env g = Some (r, g')"
  shows "r = None \<and> (mlModelStatus g' = Some Ready \<or> mlModelStatus g' = Some Error)"
  using assms
  by (auto simp: initializeMLModel_def Let_def split: option.splits prod.splits)

lemma initializeMLModel_returns:
  assumes "model (embeddingModel g) = None \<and> isLoading (embeddingModel g) \<longrightarrow>
             (\<exists>n. \<not> isLoading (providerPolls env n))"
  shows "\<exists>g'. initializeMLModel env g = Some (None, g')"
proof -
  from initialize_returns[of "embeddingModel g" "providerPolls env" "pipeline env"] assms
  obtain r this' where
    "initialize (pipeline env) (providerPolls env) (embeddingModel g) = Some (r, this')"
    by auto
  then show ?thesis by (cases r) (simp_all add: initializeMLModel_def Let_def)
qed

lemma initializeMLModel_load_fails:
  assumes "model (embeddingModel g) = None" "\<not> isLoading (embeddingModel g)" "pipeline env = Inl e"
  shows "\<exists>g'. initializeMLModel env g = Some (None, g') \<and> mlModelStatus g' = Some Error \<and>
              mlModelError g' = Some (errorMessage e)"
  using assms by (simp add: initializeMLModel_def Let_def initialize_load_fails)

lemma ensureModel_catches:
  assumes "ensureModel env g = Some (r, g')"
  shows "r = None"
  using assms initializeMLModel_catches
  by (auto simp: ensureModel_def split: if_splits option.splits)

lemma ensureModel_returns:
  assumes "mlModelStatus g = Some Loading \<longrightarrow>
             (\<exists>n. mlModelStatus (globalsPolls env n) \<noteq> Some Loading)"
    and "model (embeddingModel g) = None \<and> isLoading (embeddingModel g) \<longrightarrow>
             (\<exists>n. \<not> isLoading (providerPolls env n))"
  shows "\<exists>g'. ensureModel env g = Some (None, g')"
proof (cases "mlModelStatus g = Some Loading")
  case True
  then obtain n where "mlModelStatus (globalsPolls env n) \<noteq> Some Loading" using assms(1) by blast
  from waitWhileStatusLoading_ends[of "globalsPolls env" n 0, OF this] True show ?thesis
    by (auto simp: ensureModel_def)
next
  case False
  then show ?thesis using initializeMLModel_returns[OF assms(2)]
    by (auto simp: ensureModel_def)
qed

lemma createSlidingWindows_default_returns:
  "\<exists>windows. createSlidingWindows txt 512 128 = Some windows"
proof (cases "int (length (tokenize txt)) \<le> 512")
  case True
  then show ?thesis by (simp add: createSlidingWindows_def createSlidingWindowsOf_def)
next
  case False
  have "(0::int) < 512 - 128" "(0::int) < 512" "(0::int) \<le> 0" by simp_all
  from windowLoop_pos_stride[OF this, of "tokenize txt" "[]"] False show ?thesis
    by (auto simp: createSlidingWindows_def createSlidingWindowsOf_def)
qed

lemma aggregate_returns: "\<exists>r g'. aggregate g txt bk ak = Some (r, g')"
proof -
  obtain windows where "createSlidingWindows txt 512 128 = Some windows"
    using createSlidingWindows_default_returns by blast
  then show ?thesis
    by (auto simp: aggregate_def Let_def split: prod.splits option.splits)
qed

text \<open>
  C1. No exception reaches the caller of \<open>computePageSimilarity\<close>. If the model is not
  \<open>Ready\<close> after the initialisation or the wait, for instance because loading the pipeline
  failed, the result is the neutral result; if a step of the \<open>try\<close> block (windowing,
  embedding, similarity) raises, the result is the neutral result as well. The call returns
  whenever the busy waits that it may enter come to an end.
\<close>

theorem computePageSimilarity_fails_open:
  "(\<forall>e g'. computePageSimilarity env g txt blockedKeywords allowedKeywords \<noteq> Some (Inl e, g')) \<and>
   (\<forall>r g1. ensureModel env g = Some (r, g1) \<and> mlModelStatus g1 \<noteq> Some Ready \<longrightarrow>
      computePageSimilarity env g txt blockedKeywords allowedKeywords
        = Some (Inr neutralResult, g1)) \<and>
   (\<forall>e. (mlModelStatus g = None \<or> mlModelStatus g = Some Error) \<and>
        model (embeddingModel g) = None \<and> \<not> isLoading (embeddingModel g) \<and>
        pipeline env = Inl e \<longrightarrow>
      (\<exists>g'. computePageSimilarity env g txt blockedKeywords allowedKeywords
               = Some (Inr neutralResult, g') \<and> mlModelStatus g' = Some Error)) \<and>
   (\<forall>r g1 e g2. ensureModel env g = Some (r, g1) \<and> mlModelStatus g1 = Some Ready \<and>
        aggregate g1 txt blockedKeywords allowedKeywords = Some (Inl e, g2) \<longrightarrow>
      computePageSimilarity env g txt blockedKeywords allowedKeywords
        = Some (Inr neutralResult, g2)) \<and>
   ((mlModelStatus g = Some Loading \<longrightarrow>
       (\<exists>n. mlModelStatus (globalsPolls env n) \<noteq> Some Loading)) \<and>
    (model (embeddingModel g) = None \<and> isLoading (embeddingModel g) \<longrightarrow>
       (\<exists>n. \<not> isLoading (providerPolls env n))) \<longrightarrow>
      (\<exists>result g'. computePageSimilarity env g txt blockedKeywords allowedKeywords
                      = Some (Inr result, g')))"
proof (intro conjI allI impI)
  fix e g'
  show "computePageSimilarity env g txt blockedKeywords allowedKeywords \<noteq> Some (Inl e, g')"
    using ensureModel_catches[of env g]
    by (auto simp: computePageSimilarity_def split: option.splits prod.splits sum.splits if_splits)
next
  fix r g1
  assume h: "ensureModel env g = Some (r, g1) \<and> mlModelStatus g1 \<noteq> Some Ready"
  then have "r = None" using ensureModel_catches by blast
  then show "computePageSimilarity env g txt blockedKeywords allowedKeywords
               = Some (Inr neutralResult, g1)"
    using h by (simp add: computePageSimilarity_def)
next
  fix e
  assume h: "(mlModelStatus g = None \<or> mlModelStatus g = Some Error) \<and>
        model (embeddingModel g) = None \<and> \<not> isLoading (embeddingModel g) \<and>
        pipeline env = Inl e"
  then obtain g' where g': "initializeMLModel env g = Some (None, g')" "mlModelStatus g' = Some Error"
    using initializeMLModel_load_fails[of g env e] by blast
  then have "ensureModel env g = Some (None, g')" using h by (auto simp: ensureModel_def)
  then have "computePageSimilarity env g txt blockedKeywords allowedKeywords
               = Some (Inr neutralResult, g')"
    using g'(2) by (simp add: computePageSimilarity_def)
  then show "\<exists>g'. computePageSimilarity env g txt blockedKeywords allowedKeywords
               = Some (Inr neutralResult, g') \<and> mlModelStatus g' = Some Error"
    using g'(2) by blast
next
  fix r g1 e g2
  assume h: "ensureModel env g = Some (r, g1) \<and> mlModelStatus g1 = Some Ready \<and>
        aggregate g1 txt blockedKeywords allowedKeywords = Some (Inl e, g2)"
  then have "r = None" using ensureModel_catches by blast
  then show "computePageSimilarity env g txt blockedKeywords allowedKeywords
               = Some (Inr neutralResult, g2)"
    using h by (simp add: computePageSimilarity_def)
next
  assume "(mlModelStatus g = Some Loading \<longrightarrow>
       (\<exists>n. mlModelStatus (globalsPolls env n) \<noteq> Some Loading)) \<and>
    (model (embeddingModel g) = None \<and> isLoading (embeddingModel g) \<longrightarrow>
       (\<exists>n. \<not> isLoading (providerPolls env n)))"
  then obtain g1 where g1: "ensureModel env g = Some (None, g1)"
    using ensureModel_returns[of g env] by blast
  obtain r g2 where "aggregate g1 txt blockedKeywords allowedKeywords = Some (r, g2)"
    using aggregate_returns by blast
  then show "\<exists>result g'. computePageSimilarity env g txt blockedKeywords allowedKeywords
                      = Some (Inr result, g')"
    using g1 by (cases r) (auto simp: computePageSimilarity_def)
qed

theorem computePageSimilarity_fails_open_witness:
  "mlModelStatus newGlobals = None \<and> model (embeddingModel newGlobals) = None \<and>
   \<not> isLoading (embeddingModel newGlobals) \<and>
   pipeline (demoEnv\<lparr>pipeline := Inl (BackendError ''network'')\<rparr>)
     = Inl (BackendError ''network'') \<and>
   (\<exists>g'. computePageSimilarity (demoEnv\<lparr>pipeline := Inl (BackendError ''network'')\<rparr>) newGlobals
            ''some page'' [''gaming''] [''study'']
          = Some (Inr neutralResult, g') \<and> mlModelStatus g' = Some Error) \<and>
   ensureModel demoEnv demoGlobals = Some (None, demoGlobals) \<and>
   mlModelStatus demoGlobals = Some Ready \<and>
   aggregate demoGlobals ''boom'' [''gaming''] [''study'']
     = Some (Inl (BackendError ''bad input''), demoGlobals\<lparr>embedCalls := [''boom'']\<rparr>) \<and>
   computePageSimilarity demoEnv demoGlobals ''boom'' [''gaming''] [''study'']
     = Some (Inr neutralResult, demoGlobals\<lparr>embedCalls := [''boom'']\<rparr>)"
proof -
  let ?env = "demoEnv\<lparr>pipeline := Inl (BackendError ''network'')\<rparr>"
  have n: "mlModelStatus newGlobals = None" "model (embeddingModel newGlobals) = None"
          "\<not> isLoading (embeddingModel newGlobals)"
          "pipeline ?env = Inl (BackendError ''network'')"
    by (simp_all add: newGlobals_def newEmbeddingModel_def)
  from computePageSimilarity_fails_open[of ?env newGlobals "''some page''" "[''gaming'']" "[''study'']"] n
  have 1: "\<exists>g'. computePageSimilarity ?env newGlobals ''some page'' [''gaming''] [''study'']
                  = Some (Inr neutralResult, g') \<and> mlModelStatus g' = Some Error"
    by blast
  have d: "mlModelStatus demoGlobals = Some Ready" by (simp add: demoGlobals_def)
  then have en: "ensureModel demoEnv demoGlobals = Some (None, demoGlobals)"
    by (simp add: ensureModel_def)
  have w: "createSlidingWindows ''boom'' 512 128
             = Some [\<lparr>wtext = ''boom'', startIndex = 0, endIndex = 1\<rparr>]"
    by code_simp
  have e: "computeEmbedding (embeddingModel demoGlobals) ''boom'' = Inl (BackendError ''bad input'')"
    by (simp add: demoGlobals_def computeEmbedding_def demoBackend_def trim_def isSpace_def)
  have c: "embedCalls demoGlobals = []" by (simp add: demoGlobals_def)
  have a: "aggregate demoGlobals ''boom'' [''gaming''] [''study'']
             = Some (Inl (BackendError ''bad input''), demoGlobals\<lparr>embedCalls := [''boom'']\<rparr>)"
    by (simp add: aggregate_def w e c Let_def)
  from computePageSimilarity_fails_open[of demoEnv demoGlobals "''boom''" "[''gaming'']" "[''study'']"]
       en d a
  have 2: "computePageSimilarity demoEnv demoGlobals ''boom'' [''gaming''] [''study'']
             = Some (Inr neutralResult, demoGlobals\<lparr>embedCalls := [''boom'']\<rparr>)"
    by blast
  show ?thesis using n 1 en d a 2 by simp
qed


subsection \<open>The decision\<close>

lemma aggregate_decides:
  assumes "aggregate g txt bk ak = Some (Inr result, g')"
  shows "\<exists>blockedSim allowedSim. result = decide blockedSim allowedSim"
  using assms
  by (auto simp: aggregate_def Let_def split: option.splits prod.splits)

lemma computePageSimilarity_result:
  assumes "computePageSimilarity env g txt bk ak = Some (Inr result, g')"
  shows "result = neutralResult \<or> (\<exists>blockedSim allowedSim. result = decide blockedSim allowedSim)"
  using assms aggregate_decides
  by (auto simp: computePageSimilarity_def split: option.splits prod.splits sum.splits if_splits)

text \<open>
  C2. The decision sets \<open>shouldBlock\<close> exactly when the pooled blocked score is above 0.30 and
  the pooled allowed score is below 0.55, and leaves the two scores as they are; every result
  that \<open>computePageSimilarity\<close> returns satisfies this relation between its three fields. The
  scores (0.5, 0.2) are blocked; (0.5, 0.6) and (0.2, 0.2) are not.
\<close>

theorem decide_thresholds:
  "shouldBlock (decide blockedSim allowedSim) = (blockedSim > 0.30 \<and> allowedSim < 0.55) \<and>
   blockedSimilarity (decide blockedSim allowedSim) = blockedSim \<and>
   allowedSimilarity (decide blockedSim allowedSim) = allowedSim \<and>
   (\<forall>result g'. computePageSimilarity env g txt blockedKeywords allowedKeywords
                    = Some (Inr result, g') \<longrightarrow>
      shouldBlock result = (blockedSimilarity result > 0.30 \<and> allowedSimilarity result < 0.55)) \<and>
   shouldBlock (decide 0.5 0.2) \<and>
   \<not> shouldBlock (decide 0.5 0.6) \<and>
   \<not> shouldBlock (decide 0.2 0.2)"
proof -
  have d: "shouldBlock (decide b a) = (b > 0.30 \<and> a < 0.55) \<and>
           blockedSimilarity (decide b a) = b \<and> allowedSimilarity (decide b a) = a" for b a
    by (simp add: decide_def BLOCK_THRESHOLD_def ALLOW_THRESHOLD_def)
  have "shouldBlock result = (blockedSimilarity result > 0.30 \<and> allowedSimilarity result < 0.55)"
    if "computePageSimilarity env g txt blockedKeywords allowedKeywords = Some (Inr result, g')"
    for result g'
    using computePageSimilarity_result[OF that] d by (auto simp: neutralResult_def)
  moreover have "shouldBlock (decide 0.5 0.2) \<and> \<not> shouldBlock (decide 0.5 0.6) \<and>
                 \<not> shouldBlock (decide 0.2 0.2)"
    by (simp add: decide_def BLOCK_THRESHOLD_def ALLOW_THRESHOLD_def)
  ultimately show ?thesis using d by blast
qed

theorem decide_thresholds_witness:
  "computePageSimilarity demoEnv demoGlobals ''play one'' [''gaming''] [''study'']
     = Some (Inr \<lparr>blockedSimilarity = 1, allowedSimilarity = 0, shouldBlock = True\<rparr>,
             demoGlobals\<lparr>embedCalls := [''play one'']\<rparr>) \<and>
   shouldBlock \<lparr>blockedSimilarity = 1, allowedSimilarity = 0, shouldBlock = True\<rparr>
     = ((1::real) > 0.30 \<and> (0::real) < 0.55)"
proof -
  let ?r = "\<lparr>blockedSimilarity = 1, allowedSimilarity = 0, shouldBlock = True\<rparr>"
  have d: "mlModelStatus demoGlobals = Some Ready" by (simp add: demoGlobals_def)
  then have en: "ensureModel demoEnv demoGlobals = Some (None, demoGlobals)"
    by (simp add: ensureModel_def)
  have w: "createSlidingWindows ''play one'' 512 128
             = Some [\<lparr>wtext = ''play one'', startIndex = 0, endIndex = 2\<rparr>]"
    by code_simp
  have e: "computeEmbedding (embeddingModel demoGlobals) ''play one'' = Inr [1, 0]"
    by (simp add: demoGlobals_def computeEmbedding_def demoBackend_def trim_def isSpace_def)
  have c: "cosineSimilarityExact [1, 0] [1, 0] = Inr 1"
          "cosineSimilarityExact [1, 0] [0, 1] = Inr 0"
    by (simp_all add: cosineSimilarityExact_def dot_def)
  have k: "cacheLookup (keywordEmbeddingCache demoGlobals) ''gaming'' = Embedding [1, 0]"
          "cacheLookup (keywordEmbeddingCache demoGlobals) ''study'' = Embedding [0, 1]"
          "embedCalls demoGlobals = []"
    by (simp_all add: demoGlobals_def cacheLookup_def objectPrototypeNames_def)
  have a: "aggregate demoGlobals ''play one'' [''gaming''] [''study'']
             = Some (Inr ?r, demoGlobals\<lparr>embedCalls := [''play one'']\<rparr>)"
    by (simp add: aggregate_def w e c k Let_def calculate75thPercentile_def decide_def
          BLOCK_THRESHOLD_def ALLOW_THRESHOLD_def)
  have r: "computePageSimilarity demoEnv demoGlobals ''play one'' [''gaming''] [''study'']
             = Some (Inr ?r, demoGlobals\<lparr>embedCalls := [''play one'']\<rparr>)"
    by (simp add: computePageSimilarity_def en d a)
  from decide_thresholds[of 1 0 demoEnv demoGlobals "''play one''" "[''gaming'']" "[''study'']"] r
  have "shouldBlock ?r = (blockedSimilarity ?r > 0.30 \<and> allowedSimilarity ?r < 0.55)"
    by blast
  then show ?thesis using r by simp
qed

end
